theory Spec2Isabelle
  imports Complex_Main "HOL-Library.Sublist"
begin

section \<open>gatsby-source-directus: the source plugin of \<^verbatim>\<open>gatsby-node.js\<close>\<close>

text \<open>
  A shallow embedding of \<^verbatim>\<open>gatsby-node.js\<close>. JavaScript strings are \<^typ>\<open>string\<close>,
  a thrown \<^verbatim>\<open>Error\<close> is the left summand of a sum type, objects used as dictionaries
  are maps, and everything the module reaches outside itself (the Directus SDK, the
  transport, the host's node store and cache) is an explicit parameter or an explicit
  component of the state that is passed through. Of the lifecycle functions,
  \<^verbatim>\<open>sourceNodes\<close> and the resolver installed by \<^verbatim>\<open>createResolvers\<close> are modelled;
  \<^verbatim>\<open>createSchemaCustomization\<close> and \<^verbatim>\<open>createResolvers\<close> themselves only call
  \<^verbatim>\<open>setOptions\<close> and hand over to the host.
\<close>

subsection \<open>String primitives of the host language\<close>

text \<open>
  \<^verbatim>\<open>String.prototype.split\<close> with a one-character separator: the result is never
  empty, and \<open>n\<close> occurrences of the separator give \<open>n + 1\<close> segments.
\<close>

fun split :: "char \<Rightarrow> string \<Rightarrow> string list" where
  "split sep [] = [[]]"
| "split sep (c # cs) =
     (if c = sep then [] # split sep cs
      else (case split sep cs of
              [] \<Rightarrow> [[c]]
            | w # ws \<Rightarrow> (c # w) # ws))"

text \<open>\<^verbatim>\<open>Array.prototype.join\<close> on an array of strings.\<close>

fun join :: "string \<Rightarrow> string list \<Rightarrow> string" where
  "join sep [] = []"
| "join sep [x] = x"
| "join sep (x # y # ys) = x @ sep @ join sep (y # ys)"

text \<open>\<^verbatim>\<open>String.prototype.endsWith\<close> with a one-character argument.\<close>

definition endsWith :: "string \<Rightarrow> char \<Rightarrow> bool" where
  "endsWith s c = (s \<noteq> [] \<and> last s = c)"

subsection \<open>Deriving the local name and extension of a download\<close>

text \<open>
  Lines 90--92 of \<^verbatim>\<open>exports.sourceNodes\<close>:
  \<^verbatim>\<open>
  const nameParts = file.filename_download.split('.');
  const ext = nameParts.length > 1 ? `.${nameParts.pop()}` : '';
  const name = nameParts.join('.');
  \<close>
  \<^verbatim>\<open>pop\<close> removes the last segment from \<^verbatim>\<open>nameParts\<close> before the join.
  The result is the pair \<open>(name, ext)\<close>.
\<close>

definition split_filename :: "string \<Rightarrow> string \<times> string" where
  "split_filename filename_download =
     (let nameParts = split (CHR ''.'') filename_download in
      if length nameParts > 1
      then (join ''.'' (butlast nameParts), ''.'' @ last nameParts)
      else (join ''.'' nameParts, ''''))"

subsection \<open>The retrying fetch of the option bundle\<close>

text \<open>
  The \<^verbatim>\<open>fetch\<close> closure built by \<^verbatim>\<open>Plugin.getOptions\<close> (lines 226--250):
  \<^verbatim>\<open>
  let count = 0; let response = null; let error = null;
  while (response === null && count++ < this.retries) {
    try { response = await request(); } catch (err) { error = err; }
    if (count > 0) { await sleep(Math.pow(2, count) * 1000); }
  }
  if (response === null) throw error;
  return response;
  \<close>
  The transport \<^verbatim>\<open>request\<close>, which calls \<^verbatim>\<open>nodeFetch(uri, options)\<close>, is a
  parameter (the module does not declare \<^verbatim>\<open>nodeFetch\<close>): \<open>request n\<close> is the
  outcome of its \<open>n\<close>-th call, counted from 0, \<open>Inl\<close> for a thrown error and \<open>Inr\<close>
  for a response.
  What the loop does to the outside world is recorded in a trace of events: a call of
  the transport, or a sleep with its duration in milliseconds. The local variable
  \<^verbatim>\<open>error\<close> is the field \<open>last_error\<close>; \<open>None\<close> stands for \<^verbatim>\<open>null\<close>.
  Numbers are integers here: the floating-point range of \<^verbatim>\<open>count\<close> is not modelled.
\<close>

datatype event = Request | Sleep int

record ('e, 'r) fetch_state =
  count :: int
  response :: "'r option"
  last_error :: "'e option"
  trace :: "event list"

definition calls :: "event list \<Rightarrow> nat" where
  "calls t = length (filter (\<lambda>e. e = Request) t)"

text \<open>The \<^verbatim>\<open>try\<close>/\<^verbatim>\<open>catch\<close> around one call of the transport.\<close>

definition attempt ::
  "(nat \<Rightarrow> 'e + 'r) \<Rightarrow> ('e, 'r) fetch_state \<Rightarrow> ('e, 'r) fetch_state" where
  "attempt request s =
     (case request (calls (trace s)) of
        Inr r \<Rightarrow> s\<lparr>response := Some r, trace := trace s @ [Request]\<rparr>
      | Inl err \<Rightarrow> s\<lparr>last_error := Some err, trace := trace s @ [Request]\<rparr>)"

text \<open>The guarded \<^verbatim>\<open>sleep\<close> that ends the loop body.\<close>

definition backoff :: "('e, 'r) fetch_state \<Rightarrow> ('e, 'r) fetch_state" where
  "backoff s =
     (if count s > 0
      then s\<lparr>trace := trace s @ [Sleep (2 ^ nat (count s) * 1000)]\<rparr>
      else s)"

text \<open>
  The loop. Its condition is short-circuit: \<^verbatim>\<open>count++\<close> is evaluated only while
  \<^verbatim>\<open>response\<close> is \<^verbatim>\<open>null\<close>, compares the old value and leaves the new one.
\<close>

function fetch_loop ::
  "int \<Rightarrow> (nat \<Rightarrow> 'e + 'r) \<Rightarrow> ('e, 'r) fetch_state \<Rightarrow> ('e, 'r) fetch_state" where
  "fetch_loop retries request s =
     (if response s = None then
        (if count s < retries
         then fetch_loop retries request
                (backoff (attempt request (s\<lparr>count := count s + 1\<rparr>)))
         else s\<lparr>count := count s + 1\<rparr>)
      else s)"
  by pat_completeness auto
termination
  by (relation "measure (\<lambda>(retries, request, s). nat (retries - count s))")
     (auto simp: backoff_def attempt_def split: sum.splits)

declare fetch_loop.simps [simp del]

text \<open>
  \<^verbatim>\<open>this.retries\<close> is \<open>None\<close> when it is \<^verbatim>\<open>undefined\<close>: the comparison
  \<^verbatim>\<open>count++ < undefined\<close> is false, so the body never runs. The result is the thrown
  value or the response, together with the trace.
\<close>

definition fetch ::
  "int option \<Rightarrow> (nat \<Rightarrow> 'e + 'r) \<Rightarrow> ('e option + 'r) \<times> event list" where
  "fetch retries request =
     (let init = \<lparr>count = 0, response = None, last_error = None, trace = []\<rparr>;
          s = (case retries of
                 None \<Rightarrow> init\<lparr>count := 1\<rparr>
               | Some n \<Rightarrow> fetch_loop n request init)
      in case response s of
           None \<Rightarrow> (Inl (last_error s), trace s)
         | Some r \<Rightarrow> (Inr r, trace s))"

text \<open>
  For stating what the loop does: attempts number \<open>a\<close> to \<open>b - 1\<close> (counted from 1),
  each followed by its sleep.
\<close>

definition rounds :: "nat \<Rightarrow> nat \<Rightarrow> event list" where
  "rounds a b = concat (map (\<lambda>c. [Request, Sleep (2 ^ c * 1000)]) [a..<b])"

subsection \<open>Errors\<close>

text \<open>
  A thrown JavaScript error with its message. \<open>TypeError\<close> is what the host language
  itself throws (reading the entries of \<^verbatim>\<open>null\<close>, for instance); \<open>Error\<close> is
  every \<^verbatim>\<open>new Error(message)\<close> of the module and of the libraries it calls.
\<close>

datatype js_error = Error string | TypeError string

text \<open>
  The module's \<^verbatim>\<open>error(message)\<close> (lines 336--343) writes the message to the
  console and throws \<^verbatim>\<open>new Error(`gatsby-source-directus: ${message}`)\<close>. The model
  gives the error that is thrown; console output (also that of \<^verbatim>\<open>warning\<close>) is
  not modelled.
\<close>

definition error :: "string \<Rightarrow> js_error" where
  "error message = Error (''gatsby-source-directus: '' @ message)"

text \<open>
  \<^verbatim>\<open>isEmpty(value)\<close> (lines 330--334): only a non-empty \<^verbatim>\<open>String\<close> is not empty.
  An option field is \<open>None\<close> when it is absent or is not a string.
\<close>

definition isEmpty :: "string option \<Rightarrow> bool" where
  "isEmpty v = (case v of Some s \<Rightarrow> length s = 0 | None \<Rightarrow> True)"

text \<open>The string a template literal or a call receives from such a field.\<close>

definition string_of :: "string option \<Rightarrow> string" where
  "string_of v = (case v of Some s \<Rightarrow> s | None \<Rightarrow> ''undefined'')"

subsection \<open>Plugin options\<close>

text \<open>
  The option object that the host passes to every lifecycle function. The keys that
  the module only forwards to \<^verbatim>\<open>gatsby-source-graphql\<close> (\<^verbatim>\<open>graphql\<close> and unknown
  keys) are left out. \<^verbatim>\<open>dev.refresh\<close> is a number or a string; \<^verbatim>\<open>headers\<close> is
  classified by \<^verbatim>\<open>typeof\<close>: \<^verbatim>\<open>null\<close> and objects are \<^verbatim>\<open>'object'\<close>, a function
  is called anew at every use (its argument here is the time of the call) and may throw
  or return nothing.
\<close>

record auth_options =
  token :: "string option"
  email :: "string option"
  password :: "string option"

record type_options =
  name :: "string option"
  field :: "string option"
  system_name :: "string option"
  system_field :: "string option"

datatype refresh_value = RefreshNumber rat | RefreshString string

type_synonym header_map = "string \<rightharpoonup> string"

datatype headers_option =
    HeadersUndefined
  | HeadersNull
  | HeadersObject header_map
  | HeadersFunction "nat \<Rightarrow> js_error + header_map option"
  | HeadersOther

record plugin_options =
  opt_url :: "string option"
  opt_auth :: "auth_options option"
  opt_type :: "type_options option"
  opt_dev_refresh :: "refresh_value option"
  opt_concurrency :: "int option"
  opt_retries :: "int option"
  opt_headers :: headers_option

definition auth_field ::
  "(auth_options \<Rightarrow> string option) \<Rightarrow> auth_options option \<Rightarrow> string option" where
  "auth_field f a = (case a of None \<Rightarrow> None | Some r \<Rightarrow> f r)"

subsection \<open>The host and the libraries\<close>

text \<open>
  The Directus client held in \<^verbatim>\<open>this.directus\<close>: the URL it was built with and the
  authentication exchanges made through it so far, in order.
\<close>

datatype auth_result = AuthResult string

datatype sdk_call = Static string | Login string string

record directus_client =
  base_url :: string
  exchanges :: "sdk_call list"

record file_record =
  file_id :: string
  file_type :: string
  filename_download :: string

text \<open>
  The part of the host's build state that the module reads and writes: the durable
  cache (file identifier to node identifier), the identifiers for which \<^verbatim>\<open>getNode\<close>
  finds a node, and two logs: the nodes passed to \<^verbatim>\<open>touchNode\<close> and the calls of
  \<^verbatim>\<open>createRemoteFileNode\<close>, each with the identifier of the node it created.
\<close>

record remote_file_request =
  req_url :: string
  req_parentNodeId :: string
  req_Authorization :: "string option"
  req_ext :: string
  req_name :: string

record host_state =
  cache :: "string \<rightharpoonup> string"
  nodes :: "string set"
  touched :: "string list"
  downloads :: "(remote_file_request \<times> string) list"

record option_bundle =
  bundle_url :: string
  typeName :: string
  fieldName :: string

text \<open>
  What the host language and the libraries answer. Each is a parameter of the model,
  so that nothing is said about them beyond what a theorem assumes:
  \<^item> the URL class of the host language, on URL objects of a type \<open>'u\<close> that is left
    open: the constructor \<^verbatim>\<open>new URL(s)\<close> (\<open>None\<close> when it throws), the
    \<^verbatim>\<open>pathname\<close> getter, the \<^verbatim>\<open>pathname\<close> setter (it returns the object as the
    assignment leaves it) and \<^verbatim>\<open>toString()\<close>;
  \<^item> the two authentication calls of the SDK (\<open>Inl\<close> carries \<^verbatim>\<open>err.message\<close>) and
    the SDK's \<^verbatim>\<open>auth.token\<close> getter at a given time;
  \<^item> the file listing with its \<^verbatim>\<open>limit\<close> and \<^verbatim>\<open>page\<close> (\<open>Inr None\<close> is a reply
    without \<^verbatim>\<open>data\<close>);
  \<^item> the \<^verbatim>\<open>ms\<close> parser (\<open>Inr None\<close> is \<^verbatim>\<open>undefined\<close>);
  \<^item> \<^verbatim>\<open>createRemoteFileNode\<close> (the identifier of the node it creates) and the
    \<^verbatim>\<open>sourceNodes\<close> of \<^verbatim>\<open>gatsby-source-graphql\<close>.
\<close>

record 'u env =
  new_URL :: "string \<Rightarrow> 'u option"
  pathname :: "'u \<Rightarrow> string"
  set_pathname :: "string \<Rightarrow> 'u \<Rightarrow> 'u"
  toString :: "'u \<Rightarrow> string"
  auth_static :: "string \<Rightarrow> string + auth_result"
  auth_login :: "string \<Rightarrow> string \<Rightarrow> string + auth_result"
  auth_token :: "directus_client \<Rightarrow> nat \<Rightarrow> string option"
  files_readByQuery ::
    "directus_client \<Rightarrow> int option \<Rightarrow> int \<Rightarrow> js_error + file_record list option"
  ms :: "string \<Rightarrow> js_error + rat option"
  createRemoteFileNode :: "remote_file_request \<Rightarrow> js_error + string"
  graphql_sourceNodes :: "option_bundle \<Rightarrow> host_state \<Rightarrow> js_error + host_state"

subsection \<open>Resolving the three endpoints\<close>

text \<open>
  The first \<^verbatim>\<open>try\<close> block of \<^verbatim>\<open>Plugin.setOptions\<close> (lines 174--188):
  \<^verbatim>\<open>
  const baseUrl = new URL(url);
  const basePath = baseUrl.pathname.endsWith('/') ? baseUrl.pathname.slice(0, -1) : baseUrl.pathname;
  baseUrl.pathname = basePath;                     this.url = baseUrl.toString();
  baseUrl.pathname = basePath + '/graphql';        this.urlGraphql = baseUrl.toString();
  baseUrl.pathname = basePath + '/graphql/system'; this.urlGraphqlSystem = baseUrl.toString();
  \<close>
  with \<^verbatim>\<open>error('"url" should be a valid URL')\<close> in the \<^verbatim>\<open>catch\<close>. Only the
  constructor throws. The three assignments act on the one object \<^verbatim>\<open>baseUrl\<close>, each
  on what the one before left. The result is the triple
  \<open>(url, urlGraphql, urlGraphqlSystem)\<close>.
\<close>

definition resolve_urls :: "'u env \<Rightarrow> string \<Rightarrow> js_error + (string \<times> string \<times> string)" where
  "resolve_urls e s =
     (case new_URL e s of
        None \<Rightarrow> Inl (error ''\"url\" should be a valid URL'')
      | Some baseUrl \<Rightarrow>
          (let basePath = (if endsWith (pathname e baseUrl) (CHR ''/'')
                           then butlast (pathname e baseUrl) else pathname e baseUrl);
               baseUrl1 = set_pathname e basePath baseUrl;
               baseUrl2 = set_pathname e (basePath @ ''/graphql'') baseUrl1;
               baseUrl3 = set_pathname e (basePath @ ''/graphql/system'') baseUrl2
           in Inr (toString e baseUrl1, toString e baseUrl2, toString e baseUrl3)))"

subsection \<open>The plugin instance\<close>

text \<open>
  The fields of \<^verbatim>\<open>class Plugin\<close> as its constructor sets them (lines 143--155);
  \<^verbatim>\<open>fileCache\<close> is never read and is left out. \<open>None\<close> is \<^verbatim>\<open>null\<close> or
  \<^verbatim>\<open>undefined\<close>, and for \<open>refreshInterval\<close> it is \<^verbatim>\<open>NaN\<close>.
\<close>

record plugin =
  directus :: "directus_client option"
  options :: "plugin_options option"
  urlGraphqlSystem :: string
  urlGraphql :: string
  url :: string
  refreshInterval :: "rat option"
  authPromise :: "auth_result option"
  concurrency :: "int option"
  retries :: "int option"

definition new_Plugin :: plugin where
  "new_Plugin =
     \<lparr>directus = None, options = None, urlGraphqlSystem = [], urlGraphql = [], url = [],
      refreshInterval = Some 0, authPromise = None, concurrency = Some 10,
      retries = Some 5\<rparr>"

subsection \<open>Establishing the session\<close>

text \<open>
  One authentication call on \<^verbatim>\<open>this.directus\<close>: the exchange is recorded on the
  client, and its result is assigned to \<^verbatim>\<open>this.authPromise\<close> unless it throws.
\<close>

definition exchange ::
  "sdk_call \<Rightarrow> string + auth_result \<Rightarrow> plugin \<Rightarrow> (string + unit) \<times> plugin" where
  "exchange c outcome this =
     (let this1 = this\<lparr>directus :=
                    map_option (\<lambda>cl. cl\<lparr>exchanges := exchanges cl @ [c]\<rparr>) (directus this)\<rparr>
      in case outcome of
           Inl msg \<Rightarrow> (Inl msg, this1)
         | Inr res \<Rightarrow> (Inr (), this1\<lparr>authPromise := Some res\<rparr>))"

text \<open>
  The second \<^verbatim>\<open>try\<close> block of \<^verbatim>\<open>setOptions\<close> (lines 190--197), without its
  \<^verbatim>\<open>catch\<close>:
  \<^verbatim>\<open>
  this.directus = new Directus(this.url);
  if (hasToken) this.authPromise = await this.directus.auth.static(auth.token);
  if (hasCredentials)
    this.authPromise = await this.directus.auth.login({ email: auth?.email, password: auth?.password });
  \<close>
\<close>

definition authenticate ::
  "'u env \<Rightarrow> auth_options option \<Rightarrow> plugin \<Rightarrow> (string + unit) \<times> plugin" where
  "authenticate e a this =
     (let hasToken = \<not> isEmpty (auth_field token a);
          hasCredentials =
            (\<not> isEmpty (auth_field email a) \<and> \<not> isEmpty (auth_field password a));
          this1 = this\<lparr>directus := Some \<lparr>base_url = url this, exchanges = []\<rparr>\<rparr>;
          (r, this2) =
            (if hasToken
             then exchange (Static (string_of (auth_field token a)))
                    (auth_static e (string_of (auth_field token a))) this1
             else (Inr (), this1))
      in case r of
           Inl msg \<Rightarrow> (Inl msg, this2)
         | Inr _ \<Rightarrow>
             (if hasCredentials
              then exchange
                     (Login (string_of (auth_field email a)) (string_of (auth_field password a)))
                     (auth_login e (string_of (auth_field email a))
                        (string_of (auth_field password a)))
                     this2
              else (Inr (), this2)))"

text \<open>
  Line 201:
  \<^verbatim>\<open>typeof dev?.refresh === 'string' ? ms(dev.refresh) / 1000 : dev?.refresh || 15\<close>.
\<close>

definition get_refreshInterval ::
  "'u env \<Rightarrow> refresh_value option \<Rightarrow> js_error + rat option" where
  "get_refreshInterval e r =
     (case r of
        Some (RefreshString s) \<Rightarrow>
          (case ms e s of
             Inl err \<Rightarrow> Inl err
           | Inr None \<Rightarrow> Inr None
           | Inr (Some millis) \<Rightarrow> Inr (Some (millis / 1000)))
      | Some (RefreshNumber n) \<Rightarrow> Inr (Some (if n = 0 then 15 else n))
      | None \<Rightarrow> Inr (Some 15))"

text \<open>
  \<^verbatim>\<open>Plugin.setOptions\<close> (lines 157--211). The result is what the call returns or
  throws, and the plugin instance as the call leaves it: assignments made before a
  throw stay.
\<close>

definition setOptions ::
  "'u env \<Rightarrow> plugin_options \<Rightarrow> plugin \<Rightarrow> (js_error + auth_result option) \<times> plugin" where
  "setOptions e opts this =
     (if isEmpty (opt_url opts) then (Inl (error ''\"url\" must be defined''), this)
      else if directus this \<noteq> None then (Inr (authPromise this), this)
      else
        (let hasAuth = (opt_auth opts \<noteq> None);
             hasToken = \<not> isEmpty (auth_field token (opt_auth opts));
             hasEmail = \<not> isEmpty (auth_field email (opt_auth opts));
             hasPassword = \<not> isEmpty (auth_field password (opt_auth opts));
             hasCredentials = (hasEmail \<and> hasPassword)
         in if hasAuth \<and> \<not> hasToken \<and> \<not> hasCredentials
            then (Inl (error
                   ''\"auth.token\" or (\"auth.email\" and \"auth.password\") must be defined''),
                  this)
            else
              (case resolve_urls e (string_of (opt_url opts)) of
                 Inl err \<Rightarrow> (Inl err, this)
               | Inr (u, ug, us) \<Rightarrow>
                   (case authenticate e (opt_auth opts)
                           (this\<lparr>url := u, urlGraphql := ug,
                                 urlGraphqlSystem := us\<rparr>) of
                      (Inl msg, this2) \<Rightarrow>
                        (Inl (error (''authentication failed with: '' @ msg
                                       @ [CHR 0x0A] @ ''Are credentials valid?'')),
                         this2)
                    | (Inr _, this2) \<Rightarrow>
                        (case get_refreshInterval e (opt_dev_refresh opts) of
                           Inl err \<Rightarrow> (Inl err, this2)
                         | Inr None \<Rightarrow>
                             (Inl (error
                                ''\"dev.refresh\" should be a number in seconds or a string with ms format, i.e. 5s, 5m, 5h, ...''),
                              this2\<lparr>refreshInterval := None\<rparr>)
                         | Inr (Some secs) \<Rightarrow>
                             (Inr (authPromise this2),
                              this2\<lparr>refreshInterval := Some secs,
                                     options := Some opts,
                                     concurrency := opt_concurrency opts,
                                     retries := opt_retries opts\<rparr>))))))"

subsection \<open>The option bundles and the headers\<close>

text \<open>\<^verbatim>\<open>a || b\<close> on a string field: the empty string is falsy.\<close>

definition or_default :: "string option \<Rightarrow> string \<Rightarrow> string" where
  "or_default v d = (case v of None \<Rightarrow> d | Some s \<Rightarrow> if s = [] then d else s)"

definition type_field :: "(type_options \<Rightarrow> string option) \<Rightarrow> plugin \<Rightarrow> string option" where
  "type_field f this =
     (case options this of
        None \<Rightarrow> None
      | Some opts \<Rightarrow> (case opt_type opts of None \<Rightarrow> None | Some ty \<Rightarrow> f ty))"

text \<open>
  \<^verbatim>\<open>Plugin.getOptions\<close> (lines 213--252). \<^verbatim>\<open>Object.entries(this.options)\<close> comes
  first and throws a \<^verbatim>\<open>TypeError\<close> on \<^verbatim>\<open>null\<close>. The bundle's \<^verbatim>\<open>headers\<close> and
  \<^verbatim>\<open>fetch\<close> are closures over the instance: they are \<open>headers\<close> below and \<open>fetch\<close>
  above, applied to the instance at the time of the call.
\<close>

definition getOptions :: "plugin \<Rightarrow> js_error + option_bundle" where
  "getOptions this =
     (case options this of
        None \<Rightarrow> Inl (TypeError ''Cannot convert undefined or null to object'')
      | Some opts \<Rightarrow>
          Inr \<lparr>bundle_url = urlGraphql this,
               typeName = or_default (type_field name this) ''DirectusData'',
               fieldName = or_default (type_field field this) ''directus''\<rparr>)"

definition getOptionsSystem :: "plugin \<Rightarrow> js_error + option_bundle" where
  "getOptionsSystem this =
     (case getOptions this of
        Inl err \<Rightarrow> Inl err
      | Inr bundle \<Rightarrow>
          Inr (bundle\<lparr>bundle_url := urlGraphqlSystem this,
                      typeName := or_default (type_field system_name this) ''DirectusSystemData'',
                      fieldName := or_default (type_field system_field this) ''directus_system''\<rparr>))"

text \<open>
  \<^verbatim>\<open>Plugin.headers\<close> (lines 293--312), first the user's headers
  \<^verbatim>\<open>
  if (typeof this.options?.headers === 'object') Object.assign(headers, this.options.headers || {});
  else if (typeof this.options?.headers === 'function')
    Object.assign(headers, (await this.options.headers()) || {});
  \<close>
  then the token, read from the client at every call:
  \<^verbatim>\<open>
  const token = await this.directus.auth.token;
  if (token) Object.assign(headers, { Authorization: `Bearer ${token}` });
  \<close>
\<close>

definition user_headers :: "nat \<Rightarrow> plugin \<Rightarrow> js_error + header_map" where
  "user_headers t this =
     (case options this of
        None \<Rightarrow> Inr Map.empty
      | Some opts \<Rightarrow>
          (case opt_headers opts of
             HeadersObject m \<Rightarrow> Inr m
           | HeadersNull \<Rightarrow> Inr Map.empty
           | HeadersFunction f \<Rightarrow>
               (case f t of
                  Inl err \<Rightarrow> Inl err
                | Inr None \<Rightarrow> Inr Map.empty
                | Inr (Some m) \<Rightarrow> Inr m)
           | HeadersUndefined \<Rightarrow> Inr Map.empty
           | HeadersOther \<Rightarrow> Inr Map.empty))"

definition headers :: "'u env \<Rightarrow> nat \<Rightarrow> plugin \<Rightarrow> js_error + header_map" where
  "headers e t this =
     (case directus this of
        None \<Rightarrow> Inl (Error ''Directus is not instantiated'')
      | Some client \<Rightarrow>
          (case user_headers t this of
             Inl err \<Rightarrow> Inl err
           | Inr hs \<Rightarrow>
               (case auth_token e client t of
                  None \<Rightarrow> Inr hs
                | Some tok \<Rightarrow>
                    if tok = [] then Inr hs
                    else Inr (hs ++ [''Authorization'' \<mapsto> ''Bearer '' @ tok]))))"

subsection \<open>Enumerating the remote files\<close>

text \<open>
  The generator \<^verbatim>\<open>Plugin.iterateFiles\<close> (lines 265--291). Its state is the pair of
  locals \<^verbatim>\<open>hasMore\<close> and \<^verbatim>\<open>page\<close>. \<open>iterateFiles_next\<close> runs from the loop test to
  the \<^verbatim>\<open>yield\<close>: \<open>Inr None\<close> when the generator is done, \<open>Inr (Some files)\<close> for a
  yielded batch, \<open>Inl\<close> for a throw. The check of \<^verbatim>\<open>this.directus\<close> ahead of the loop
  is the one at the head of the loop body. \<open>iterateFiles_resume\<close> is the code after
  the \<^verbatim>\<open>yield\<close>; \<^verbatim>\<open>files.length < undefined\<close> is false.
\<close>

record iterator =
  hasMore :: bool
  page :: int

definition iterateFiles_start :: iterator where
  "iterateFiles_start = \<lparr>hasMore = True, page = 1\<rparr>"

definition iterateFiles_next ::
  "'u env \<Rightarrow> plugin \<Rightarrow> iterator \<Rightarrow> js_error + file_record list option" where
  "iterateFiles_next e this it =
     (if \<not> hasMore it then Inr None
      else case directus this of
          None \<Rightarrow> Inl (Error ''Directus is not instantiated'')
        | Some client \<Rightarrow>
            (case files_readByQuery e client (concurrency this) (page it) of
               Inl err \<Rightarrow> Inl err
             | Inr r \<Rightarrow> Inr (Some (case r of None \<Rightarrow> [] | Some d \<Rightarrow> d))))"

definition iterateFiles_resume :: "plugin \<Rightarrow> file_record list \<Rightarrow> iterator \<Rightarrow> iterator" where
  "iterateFiles_resume this files it =
     (if (case concurrency this of None \<Rightarrow> False | Some c \<Rightarrow> int (length files) < c)
      then it\<lparr>hasMore := False\<rparr>
      else it\<lparr>page := page it + 1\<rparr>)"

text \<open>
  The generator driven to its end by a consumer that never breaks: the batches it
  yields, in order, and the error that ended it, if one did. The loop need not end, so
  the result is optional.
\<close>

partial_function (option) iterateFiles ::
  "'u env \<Rightarrow> plugin \<Rightarrow> iterator \<Rightarrow> (file_record list list \<times> js_error option) option" where
  "iterateFiles e this it =
     (case iterateFiles_next e this it of
        Inl err \<Rightarrow> Some ([], Some err)
      | Inr None \<Rightarrow> Some ([], None)
      | Inr (Some files) \<Rightarrow>
          Option.bind (iterateFiles e this (iterateFiles_resume this files it))
            (\<lambda>(batches, err). Some (files # batches, err)))"

text \<open>
  A remote file collection as the listing endpoint serves it: the records in their
  sort order, \<open>limit\<close> records to a page, pages counted from 1.
\<close>

definition listing :: "file_record list \<Rightarrow> int \<Rightarrow> int \<Rightarrow> file_record list" where
  "listing store limit pg = take (nat limit) (drop (nat ((pg - 1) * limit)) store)"

subsection \<open>Mirroring the files\<close>

text \<open>
  The callback of \<^verbatim>\<open>files.map\<close> in \<^verbatim>\<open>exports.sourceNodes\<close> (lines 81--107) for one
  file record; \<open>authorization\<close> is the \<^verbatim>\<open>Authorization\<close> header read at the start of
  \<^verbatim>\<open>sourceNodes\<close>. First the argument that it builds for \<^verbatim>\<open>createRemoteFileNode\<close>
  (lines 90--105): the name and extension split off the download filename, and the
  asset URL \<^verbatim>\<open>`${plugin.url}assets/${file.id}`\<close>.
\<close>

definition remote_request ::
  "plugin \<Rightarrow> string option \<Rightarrow> file_record \<Rightarrow> remote_file_request" where
  "remote_request this authorization file =
     \<lparr>req_url = url this @ ''assets/'' @ file_id file,
      req_parentNodeId = file_id file,
      req_Authorization = authorization,
      req_ext = snd (split_filename (filename_download file)),
      req_name = fst (split_filename (filename_download file))\<rparr>"

text \<open>
  Then the callback itself. A cache entry whose node \<^verbatim>\<open>getNode\<close> finds is touched;
  otherwise the file is downloaded and the cache entry written. The result is the error
  thrown, if any, and the host state.
\<close>

definition sync_file ::
  "'u env \<Rightarrow> plugin \<Rightarrow> string option \<Rightarrow> host_state \<Rightarrow> file_record
     \<Rightarrow> js_error option \<times> host_state" where
  "sync_file e this authorization h file =
     (let cached = cache h (file_id file);
          node = (case cached of
                    None \<Rightarrow> None
                  | Some nodeId \<Rightarrow> if nodeId \<in> nodes h then Some nodeId else None)
      in case node of
           Some n \<Rightarrow> (None, h\<lparr>touched := touched h @ [n]\<rparr>)
         | None \<Rightarrow>
             (case createRemoteFileNode e (remote_request this authorization file) of
                Inl err \<Rightarrow> (Some err, h)
              | Inr nodeId \<Rightarrow>
                  (None, h\<lparr>nodes := insert nodeId (nodes h),
                           downloads :=
                             downloads h @ [(remote_request this authorization file, nodeId)],
                           cache := (cache h)(file_id file \<mapsto> nodeId)\<rparr>)))"

text \<open>
  \<^verbatim>\<open>Promise.all(files.map(...))\<close> for one batch. \<^verbatim>\<open>map\<close> starts every callback, and
  each runs to its end whether or not another one throws; \<^verbatim>\<open>Promise.all\<close> rejects
  with the first error. The callbacks run interleaved; each reads and writes only the
  cache entry of its own file, so for a batch of records with distinct identifiers
  their effects are those of running them one after the other, which is what the model
  does. The result is the first error, if any, and the host state once every callback
  of the batch has finished.
\<close>

fun sync_batch ::
  "'u env \<Rightarrow> plugin \<Rightarrow> string option \<Rightarrow> host_state \<Rightarrow> file_record list
     \<Rightarrow> js_error option \<times> host_state" where
  "sync_batch e this authorization h [] = (None, h)"
| "sync_batch e this authorization h (file # files) =
     (case sync_file e this authorization h file of
        (r, h') \<Rightarrow>
          (case sync_batch e this authorization h' files of
             (rs, h'') \<Rightarrow>
               (case r of
                  Some err \<Rightarrow> (Some err, h'')
                | None \<Rightarrow> (rs, h''))))"

text \<open>
  The \<^verbatim>\<open>for await\<close> loop of \<^verbatim>\<open>exports.sourceNodes\<close> (lines 77--109) over the
  generator: an empty batch breaks the loop, any other batch is mirrored before the
  generator is resumed.
\<close>

partial_function (option) sync_files ::
  "'u env \<Rightarrow> plugin \<Rightarrow> string option \<Rightarrow> iterator \<Rightarrow> host_state
     \<Rightarrow> (js_error option \<times> host_state) option" where
  "sync_files e this authorization it h =
     (case iterateFiles_next e this it of
        Inl err \<Rightarrow> Some (Some err, h)
      | Inr None \<Rightarrow> Some (None, h)
      | Inr (Some files) \<Rightarrow>
          if files = [] then Some (None, h)
          else (case sync_batch e this authorization h files of
                  (Some err, h') \<Rightarrow> Some (Some err, h')
                | (None, h') \<Rightarrow>
                    sync_files e this authorization (iterateFiles_resume this files it) h'))"

text \<open>
  \<^verbatim>\<open>exports.sourceNodes\<close> (lines 44--110) on the module's plugin instance, at time
  \<open>t\<close>. The option bundle and the headers are read first, then the options are applied,
  then both datasets are handed to \<^verbatim>\<open>gatsby-source-graphql\<close>, then the files are
  mirrored.
\<close>

definition sourceNodes ::
  "'u env \<Rightarrow> nat \<Rightarrow> plugin_options \<Rightarrow> plugin \<Rightarrow> host_state
     \<Rightarrow> (js_error option \<times> plugin \<times> host_state) option" where
  "sourceNodes e t pluginOptions this h =
     (case getOptions this of
        Inl err \<Rightarrow> Some (Some err, this, h)
      | Inr bundle \<Rightarrow>
     (case headers e t this of
        Inl err \<Rightarrow> Some (Some err, this, h)
      | Inr hs \<Rightarrow>
     (case setOptions e pluginOptions this of
        (Inl err, this1) \<Rightarrow> Some (Some err, this1, h)
      | (Inr _, this1) \<Rightarrow>
     (case getOptionsSystem this1 of
        Inl err \<Rightarrow> Some (Some err, this1, h)
      | Inr optionsSystem \<Rightarrow>
     (case getOptions this1 of
        Inl err \<Rightarrow> Some (Some err, this1, h)
      | Inr opts \<Rightarrow>
     (case graphql_sourceNodes e optionsSystem h of
        Inl err \<Rightarrow> Some (Some err, this1, h)
      | Inr h1 \<Rightarrow>
     (case graphql_sourceNodes e opts h1 of
        Inl err \<Rightarrow> Some (Some err, this1, h1)
      | Inr h2 \<Rightarrow>
          map_option (\<lambda>(r, h3). (r, this1, h3))
            (sync_files e this1 (hs ''Authorization'') iterateFiles_start h2))))))))"

subsection \<open>Resolving an image field\<close>

text \<open>
  The \<^verbatim>\<open>imageFile\<close> resolver of \<^verbatim>\<open>exports.createResolvers\<close> (lines 128--132):
  \<^verbatim>\<open>
  const cached = await cache.get(source.id);
  if (cached) return getNode(cached.nodeId);
  throw new Error('Cached image not found for id: ' + source.id);
  \<close>
\<close>

definition imageFile_resolve :: "host_state \<Rightarrow> string \<Rightarrow> js_error + string option" where
  "imageFile_resolve h source_id =
     (case cache h source_id of
        Some nodeId \<Rightarrow> Inr (if nodeId \<in> nodes h then Some nodeId else None)
      | None \<Rightarrow> Inl (Error (''Cached image not found for id: '' @ source_id)))"

subsection \<open>Pages of a collection\<close>

text \<open>
  For stating what the enumerator yields on a collection \<open>xs\<close> served \<open>n\<close> records
  to a page: every full page, then the first page that is not full, which is empty when
  \<open>n\<close> divides the number of records.
\<close>

function batches :: "nat \<Rightarrow> 'a list \<Rightarrow> 'a list list" where
  "batches n xs =
     (if n = 0 \<or> length xs < n then [xs] else take n xs # batches n (drop n xs))"
  by pat_completeness auto
termination
  by (relation "measure (\<lambda>(n, xs). length xs)") auto

declare batches.simps [simp del]

text \<open>
  The node identifiers that a cache holds for a list of file records, in the order of
  the records.
\<close>

fun cached_nodes :: "(string \<rightharpoonup> string) \<Rightarrow> file_record list \<Rightarrow> string list" where
  "cached_nodes c [] = []"
| "cached_nodes c (f # fs) =
     (case c (file_id f) of
        None \<Rightarrow> cached_nodes c fs
      | Some n \<Rightarrow> n # cached_nodes c fs)"

subsection \<open>A concrete environment\<close>

text \<open>
  A URL class for the concrete inputs used below: plain \<^verbatim>\<open>http\<close> and \<^verbatim>\<open>https\<close> URLs
  in lower case, without port, dot segments, spaces or other characters that the host's
  URL class would rewrite. On such a string the host's class keeps every component as
  written, reads an empty path as \<^verbatim>\<open>/\<close>, and its \<^verbatim>\<open>pathname\<close> setter yields a path
  that starts with a slash. This stand-in does the same on them and rejects everything
  else; it is used at such inputs only, and no theorem about arbitrary inputs rests on
  it. \<open>plain_host\<close> holds the whole authority; \<open>plain_search\<close> and \<open>plain_hash\<close> keep
  their leading \<^verbatim>\<open>?\<close> and \<^verbatim>\<open>#\<close>.
\<close>

record plain_URL =
  plain_protocol :: string
  plain_host :: string
  plain_pathname :: string
  plain_search :: string
  plain_hash :: string

definition plain_scheme :: "string \<Rightarrow> (string \<times> string) option" where
  "plain_scheme s =
     (if take 7 s = ''http://'' then Some (''http:'', drop 7 s)
      else if take 8 s = ''https://'' then Some (''https:'', drop 8 s)
      else None)"

definition authority_char :: "char \<Rightarrow> bool" where
  "authority_char c = (c \<notin> {CHR ''/'', CHR ''?'', CHR ''#''})"

definition path_char :: "char \<Rightarrow> bool" where
  "path_char c = (c \<notin> {CHR ''?'', CHR ''#''})"

definition plain_new_URL :: "string \<Rightarrow> plain_URL option" where
  "plain_new_URL s =
     (case plain_scheme s of
        None \<Rightarrow> None
      | Some (scheme, rest) \<Rightarrow>
          (let authority = takeWhile authority_char rest;
               rest1 = dropWhile authority_char rest;
               path = takeWhile path_char rest1;
               rest2 = dropWhile path_char rest1
           in if authority = [] then None
              else Some \<lparr>plain_protocol = scheme, plain_host = authority,
                         plain_pathname = (if path = [] then ''/'' else path),
                         plain_search = takeWhile (\<lambda>c. c \<noteq> CHR ''#'') rest2,
                         plain_hash = dropWhile (\<lambda>c. c \<noteq> CHR ''#'') rest2\<rparr>))"

definition plain_set_pathname :: "string \<Rightarrow> plain_URL \<Rightarrow> plain_URL" where
  "plain_set_pathname v u =
     u\<lparr>plain_pathname :=
         (case v of
            [] \<Rightarrow> ''/''
          | c # cs \<Rightarrow> if c = CHR ''/'' then v else CHR ''/'' # v)\<rparr>"

definition plain_toString :: "plain_URL \<Rightarrow> string" where
  "plain_toString u =
     plain_protocol u @ ''//'' @ plain_host u @ plain_pathname u @ plain_search u @ plain_hash u"

text \<open>
  One environment, two option objects and a small remote file collection, for
  evaluating the definitions on concrete inputs. The URL class is the one above; the
  SDK accepts every token and every login, holds the static token it was given, and
  lists the records of the collection; every download creates the node
  \<^verbatim>\<open>node-<id>\<close>.
\<close>

definition example_file :: "string \<Rightarrow> string \<Rightarrow> file_record" where
  "example_file i fn = \<lparr>file_id = i, file_type = ''image/png'', filename_download = fn\<rparr>"

definition example_store :: "file_record list" where
  "example_store =
     [example_file ''a1'' ''photo.jpg'', example_file ''b2'' ''README'',
      example_file ''c3'' ''archive.tar.gz'']"

definition example_env :: "file_record list \<Rightarrow> plain_URL env" where
  "example_env store =
     \<lparr>new_URL = plain_new_URL, pathname = plain_pathname,
      set_pathname = plain_set_pathname, toString = plain_toString,
      auth_static = (\<lambda>tk. Inr (AuthResult tk)),
      auth_login = (\<lambda>em pw. Inr (AuthResult (em @ '':'' @ pw))),
      auth_token = (\<lambda>cl t. case exchanges cl of [Static tk] \<Rightarrow> Some tk | _ \<Rightarrow> None),
      files_readByQuery =
        (\<lambda>cl limit pg. Inr (Some (listing store (case limit of Some n \<Rightarrow> n | None \<Rightarrow> 100) pg))),
      ms = (\<lambda>s. Inr None),
      createRemoteFileNode = (\<lambda>r. Inr (''node-'' @ req_parentNodeId r)),
      graphql_sourceNodes = (\<lambda>b h. Inr h)\<rparr>"

definition example_options :: plugin_options where
  "example_options =
     \<lparr>opt_url = Some ''http://example.com/cms/'',
      opt_auth = Some \<lparr>token = Some ''abc'', email = None, password = None\<rparr>,
      opt_type = None, opt_dev_refresh = None, opt_concurrency = Some 2,
      opt_retries = Some 5,
      opt_headers = HeadersObject [''X-Build'' \<mapsto> ''1'']\<rparr>"

definition other_options :: plugin_options where
  "other_options =
     \<lparr>opt_url = Some ''https://other.example.org'',
      opt_auth = Some \<lparr>token = None, email = Some ''me@example.org'', password = Some ''pw''\<rparr>,
      opt_type = None, opt_dev_refresh = None, opt_concurrency = Some 1,
      opt_retries = Some 1,
      opt_headers = HeadersUndefined\<rparr>"

definition empty_host :: host_state where
  "empty_host = \<lparr>cache = Map.empty, nodes = {}, touched = [], downloads = []\<rparr>"

text \<open>
  The plugin instance after \<^verbatim>\<open>setOptions\<close> with \<open>example_options\<close>, and the host
  state after the files of \<open>example_store\<close> have been mirrored once from an empty
  cache with the header \<^verbatim>\<open>Bearer abc\<close>.
\<close>

definition example_session_plugin :: plugin where
  "example_session_plugin =
     \<lparr>directus = Some \<lparr>base_url = ''http://example.com/cms'', exchanges = [Static ''abc'']\<rparr>,
      options = Some example_options,
      urlGraphqlSystem = ''http://example.com/cms/graphql/system'',
      urlGraphql = ''http://example.com/cms/graphql'',
      url = ''http://example.com/cms'',
      refreshInterval = Some 15, authPromise = Some (AuthResult ''abc''),
      concurrency = Some 2, retries = Some 5\<rparr>"

definition example_mirrored :: host_state where
  "example_mirrored =
     \<lparr>cache = [''a1'' \<mapsto> ''node-a1'', ''b2'' \<mapsto> ''node-b2'', ''c3'' \<mapsto> ''node-c3''],
      nodes = {''node-c3'', ''node-b2'', ''node-a1''},
      touched = [],
      downloads =
        [(\<lparr>req_url = ''http://example.com/cmsassets/a1'', req_parentNodeId = ''a1'',
           req_Authorization = Some ''Bearer abc'', req_ext = ''.jpg'', req_name = ''photo''\<rparr>,
          ''node-a1''),
         (\<lparr>req_url = ''http://example.com/cmsassets/b2'', req_parentNodeId = ''b2'',
           req_Authorization = Some ''Bearer abc'', req_ext = [], req_name = ''README''\<rparr>,
          ''node-b2''),
         (\<lparr>req_url = ''http://example.com/cmsassets/c3'', req_parentNodeId = ''c3'',
           req_Authorization = Some ''Bearer abc'', req_ext = ''.gz'',
           req_name = ''archive.tar''\<rparr>,
          ''node-c3'')]\<rparr>"

section \<open>Properties\<close>

subsection \<open>Splitting and joining\<close>

lemma split_not_Nil: "split sep s \<noteq> []"
  by (induction s) (auto split: list.splits)

lemma split_no_sep: "sep \<notin> set s \<Longrightarrow> split sep s = [s]"
  by (induction s) auto

lemma split_length_gt1: "sep \<in> set s \<longleftrightarrow> 1 < length (split sep s)"
proof (induction s)
  case Nil
  show ?case by simp
next
  case (Cons c cs)
  have "split sep cs \<noteq> []" by (rule split_not_Nil)
  with Cons show ?case
    by (cases "split sep cs") auto
qed

lemma split_segments_no_sep: "w \<in> set (split sep s) \<Longrightarrow> sep \<notin> set w"
proof (induction s arbitrary: w)
  case Nil
  then show ?case by simp
next
  case (Cons c cs)
  then show ?case
    by (cases "split sep cs") (auto split: if_splits)
qed

lemma join_split: "join [sep] (split sep s) = s"
proof (induction s)
  case Nil
  show ?case by simp
next
  case (Cons c cs)
  show ?case
  proof (cases "split sep cs")
    case Nil
    then show ?thesis using split_not_Nil [of sep cs] by simp
  next
    case (Cons w ws)
    with Cons.IH show ?thesis
      by (cases ws) auto
  qed
qed

lemma join_snoc: "xs \<noteq> [] \<Longrightarrow> join sep (xs @ [x]) = join sep xs @ sep @ x"
proof (induction xs)
  case Nil
  then show ?case by simp
next
  case (Cons y ys)
  then show ?case by (cases ys) auto
qed

lemma join_butlast_last:
  assumes "1 < length xs"
  shows "join sep (butlast xs) @ sep @ last xs = join sep xs"
proof -
  from assms have ne: "xs \<noteq> []" and bne: "butlast xs \<noteq> []"
    by (auto simp: butlast_conv_take)
  have "join sep (butlast xs @ [last xs]) = join sep (butlast xs) @ sep @ last xs"
    using bne by (rule join_snoc)
  with ne show ?thesis by simp
qed

text \<open>
  C8. The extension is the final dot-segment with its leading dot when the filename
  contains a dot, and empty otherwise; the base name is the remainder, so that name and
  extension concatenate to the filename again. The three filenames of the specification
  split as it says.
\<close>

theorem split_filename_spec:
  "(CHR ''.'' \<in> set fn \<longrightarrow>
      (\<exists>seg. snd (split_filename fn) = ''.'' @ seg \<and> CHR ''.'' \<notin> set seg
           \<and> fst (split_filename fn) @ ''.'' @ seg = fn))
   \<and> (CHR ''.'' \<notin> set fn \<longrightarrow> split_filename fn = (fn, ''''))
   \<and> split_filename ''photo.jpg'' = (''photo'', ''.jpg'')
   \<and> split_filename ''README'' = (''README'', '''')
   \<and> split_filename ''archive.tar.gz'' = (''archive.tar'', ''.gz'')"
proof (intro conjI impI)
  assume dot: "CHR ''.'' \<in> set fn"
  let ?parts = "split (CHR ''.'') fn"
  from dot have len: "1 < length ?parts"
    by (simp add: split_length_gt1)
  then have "last ?parts \<in> set ?parts"
    by (intro last_in_set) auto
  then have nodot: "CHR ''.'' \<notin> set (last ?parts)"
    by (rule split_segments_no_sep)
  have "join ''.'' (butlast ?parts) @ ''.'' @ last ?parts = join ''.'' ?parts"
    using len by (rule join_butlast_last)
  then have whole: "join ''.'' (butlast ?parts) @ ''.'' @ last ?parts = fn"
    by (simp add: join_split)
  from len nodot whole
  show "\<exists>seg. snd (split_filename fn) = ''.'' @ seg \<and> CHR ''.'' \<notin> set seg
           \<and> fst (split_filename fn) @ ''.'' @ seg = fn"
    by (intro exI [of _ "last ?parts"]) (simp add: split_filename_def Let_def)
next
  assume "CHR ''.'' \<notin> set fn"
  then show "split_filename fn = (fn, '''')"
    by (simp add: split_filename_def split_no_sep)
next
  show "split_filename ''photo.jpg'' = (''photo'', ''.jpg'')"
    by (simp add: split_filename_def)
next
  show "split_filename ''README'' = (''README'', '''')"
    by (simp add: split_filename_def)
next
  show "split_filename ''archive.tar.gz'' = (''archive.tar'', ''.gz'')"
    by (simp add: split_filename_def)
qed

theorem split_filename_spec_witness:
  "CHR ''.'' \<in> set ''a.b''
   \<and> (\<exists>seg. snd (split_filename ''a.b'') = ''.'' @ seg \<and> CHR ''.'' \<notin> set seg
           \<and> fst (split_filename ''a.b'') @ ''.'' @ seg = ''a.b'')
   \<and> CHR ''.'' \<notin> set ''LICENSE''
   \<and> split_filename ''LICENSE'' = (''LICENSE'', '''')"
  using split_filename_spec [of "''a.b''"] split_filename_spec [of "''LICENSE''"]
  by simp

subsection \<open>The retrying fetch\<close>

lemma calls_append [simp]: "calls (t @ u) = calls t + calls u"
  by (simp add: calls_def)

lemma calls_simps [simp]: "calls [] = 0" "calls (Request # t) = Suc (calls t)" "calls (Sleep d # t) = calls t"
  by (simp_all add: calls_def)

lemma rounds_empty [simp]: "b \<le> a \<Longrightarrow> rounds a b = []"
  by (simp add: rounds_def)

lemma rounds_step: "a < b \<Longrightarrow> rounds a b = Request # Sleep (2 ^ a * 1000) # rounds (Suc a) b"
  by (simp add: rounds_def upt_conv_Cons)

lemma calls_rounds [simp]: "calls (rounds a b) = b - a"
  by (induction "b - a" arbitrary: a) (simp_all add: rounds_step)

lemma round_fail:
  assumes "request (calls (trace s)) = Inl e" and "count s = int (calls (trace s))"
  shows "backoff (attempt request (s\<lparr>count := count s + 1\<rparr>)) =
         s\<lparr>count := count s + 1, last_error := Some e,
           trace := trace s @ [Request, Sleep (2 ^ Suc (calls (trace s)) * 1000)]\<rparr>"
  using assms by (simp add: backoff_def attempt_def nat_add_distrib)

lemma round_success:
  assumes "request (calls (trace s)) = Inr r" and "count s = int (calls (trace s))"
  shows "backoff (attempt request (s\<lparr>count := count s + 1\<rparr>)) =
         s\<lparr>count := count s + 1, response := Some r,
           trace := trace s @ [Request, Sleep (2 ^ Suc (calls (trace s)) * 1000)]\<rparr>"
  using assms by (simp add: backoff_def attempt_def nat_add_distrib)

lemma fetch_loop_done: "response s \<noteq> None \<Longrightarrow> fetch_loop budget request s = s"
  by (subst fetch_loop.simps) auto

lemma fetch_loop_all_fail:
  assumes "response s = None" and "count s = int (calls (trace s))"
    and "\<forall>i. calls (trace s) \<le> i \<and> int i < budget \<longrightarrow> isl (request i)"
  shows "response (fetch_loop budget request s) = None
       \<and> trace (fetch_loop budget request s)
           = trace s @ rounds (Suc (calls (trace s))) (Suc (nat budget))
       \<and> last_error (fetch_loop budget request s)
           = (if count s < budget
              then (case request (nat budget - 1) of Inl e \<Rightarrow> Some e | Inr r \<Rightarrow> None)
              else last_error s)"
  using assms
proof (induction budget request s rule: fetch_loop.induct)
  case (1 budget request s)
  show ?case
  proof (cases "count s < budget")
    case False
    with "1.prems" show ?thesis
      by (simp add: fetch_loop.simps [of budget request s])
  next
    case True
    let ?n = "calls (trace s)"
    from True "1.prems" have "isl (request ?n)" by simp
    then obtain e where e: "request ?n = Inl e" by (cases "request ?n") auto
    let ?s' = "backoff (attempt request (s\<lparr>count := count s + 1\<rparr>))"
    have s': "?s' = s\<lparr>count := count s + 1, last_error := Some e,
           trace := trace s @ [Request, Sleep (2 ^ Suc ?n * 1000)]\<rparr>"
      using e "1.prems"(2) by (rule round_fail)
    have IH: "response (fetch_loop budget request ?s') = None
       \<and> trace (fetch_loop budget request ?s')
           = trace ?s' @ rounds (Suc (calls (trace ?s'))) (Suc (nat budget))
       \<and> last_error (fetch_loop budget request ?s')
           = (if count ?s' < budget
              then (case request (nat budget - 1) of Inl e \<Rightarrow> Some e | Inr r \<Rightarrow> None)
              else last_error ?s')"
    proof (intro "1.IH")
      show "response s = None" by (rule "1.prems"(1))
      show "count s < budget" by (rule True)
      show "response ?s' = None" unfolding s' using "1.prems"(1) by simp
      show "count ?s' = int (calls (trace ?s'))" unfolding s' using "1.prems"(2) by simp
      show "\<forall>i. calls (trace ?s') \<le> i \<and> int i < budget \<longrightarrow> isl (request i)"
        unfolding s' using "1.prems"(3) by simp
    qed
    have unfold: "fetch_loop budget request s = fetch_loop budget request ?s'"
      using True "1.prems"(1) by (simp add: fetch_loop.simps [of budget request s])
    have lt: "Suc ?n < Suc (nat budget)" using True "1.prems"(2) by simp
    have last: "\<not> count s + 1 < budget \<Longrightarrow> nat budget - 1 = ?n"
      using True "1.prems"(2) by simp
    show ?thesis
      unfolding unfold using IH e last True
      by (auto simp: s' rounds_step [OF lt])
  qed
qed

lemma fetch_loop_success:
  assumes "response s = None" and "count s = int (calls (trace s))"
    and "calls (trace s) \<le> k" and "int k < budget"
    and "\<forall>i. calls (trace s) \<le> i \<and> i < k \<longrightarrow> isl (request i)"
    and "request k = Inr r"
  shows "response (fetch_loop budget request s) = Some r
       \<and> trace (fetch_loop budget request s)
           = trace s @ rounds (Suc (calls (trace s))) (Suc (Suc k))"
  using assms
proof (induction budget request s rule: fetch_loop.induct)
  case (1 budget request s)
  let ?n = "calls (trace s)"
  let ?s' = "backoff (attempt request (s\<lparr>count := count s + 1\<rparr>))"
  from "1.prems" have lt: "count s < budget" by simp
  have unfold: "fetch_loop budget request s = fetch_loop budget request ?s'"
    using lt "1.prems"(1) by (simp add: fetch_loop.simps [of budget request s])
  show ?case
  proof (cases "?n = k")
    case True
    have s': "?s' = s\<lparr>count := count s + 1, response := Some r,
           trace := trace s @ [Request, Sleep (2 ^ Suc ?n * 1000)]\<rparr>"
      using "1.prems"(6) "1.prems"(2) True by (intro round_success) simp_all
    have "response ?s' \<noteq> None" unfolding s' by simp
    then have "fetch_loop budget request ?s' = ?s'"
      by (rule fetch_loop_done)
    with unfold have "fetch_loop budget request s = ?s'" by simp
    then show ?thesis
      using True by (simp add: s' rounds_step)
  next
    case False
    with "1.prems" have nk: "?n < k" by simp
    with "1.prems" have "isl (request ?n)" by simp
    then obtain e where e: "request ?n = Inl e" by (cases "request ?n") auto
    have s': "?s' = s\<lparr>count := count s + 1, last_error := Some e,
           trace := trace s @ [Request, Sleep (2 ^ Suc ?n * 1000)]\<rparr>"
      using e "1.prems"(2) by (rule round_fail)
    have IH: "response (fetch_loop budget request ?s') = Some r
       \<and> trace (fetch_loop budget request ?s')
           = trace ?s' @ rounds (Suc (calls (trace ?s'))) (Suc (Suc k))"
    proof (intro "1.IH")
      show "response s = None" by (rule "1.prems"(1))
      show "count s < budget" by (rule lt)
      show "response ?s' = None" unfolding s' using "1.prems"(1) by simp
      show "count ?s' = int (calls (trace ?s'))" unfolding s' using "1.prems"(2) by simp
      show "calls (trace ?s') \<le> k" unfolding s' using nk by simp
      show "int k < budget" by (rule "1.prems"(4))
      show "\<forall>i. calls (trace ?s') \<le> i \<and> i < k \<longrightarrow> isl (request i)"
        unfolding s' using "1.prems"(5) by simp
      show "request k = Inr r" by (rule "1.prems"(6))
    qed
    have lt2: "Suc ?n < Suc (Suc k)" using nk by simp
    show ?thesis
      unfolding unfold using IH
      by (simp add: s' rounds_step [OF lt2])
  qed
qed


lemma fetch_all_fail:
  assumes "\<forall>i. int i < budget \<longrightarrow> isl (request i)"
  shows "fetch (Some budget) request
         = (Inl (if 0 < budget
                 then (case request (nat budget - 1) of Inl e \<Rightarrow> Some e | Inr r \<Rightarrow> None)
                 else None),
            rounds 1 (Suc (nat budget)))"
proof -
  let ?init = "\<lparr>count = 0, response = None, last_error = None, trace = []\<rparr>
               :: ('a, 'b) fetch_state"
  have "response (fetch_loop budget request ?init) = None
       \<and> trace (fetch_loop budget request ?init)
           = trace ?init @ rounds (Suc (calls (trace ?init))) (Suc (nat budget))
       \<and> last_error (fetch_loop budget request ?init)
           = (if count ?init < budget
              then (case request (nat budget - 1) of Inl e \<Rightarrow> Some e | Inr r \<Rightarrow> None)
              else last_error ?init)"
    using assms by (intro fetch_loop_all_fail) simp_all
  then show ?thesis
    by (simp add: fetch_def)
qed

lemma fetch_success:
  assumes "int k < budget" and "\<forall>i<k. isl (request i)" and "request k = Inr r"
  shows "fetch (Some budget) request = (Inr r, rounds 1 (Suc (Suc k)))"
proof -
  let ?init = "\<lparr>count = 0, response = None, last_error = None, trace = []\<rparr>
               :: ('a, 'b) fetch_state"
  have "response (fetch_loop budget request ?init) = Some r
       \<and> trace (fetch_loop budget request ?init)
           = trace ?init @ rounds (Suc (calls (trace ?init))) (Suc (Suc k))"
    using assms by (intro fetch_loop_success) simp_all
  then show ?thesis
    by (simp add: fetch_def)
qed

lemma fetch_calls_bounded: "calls (snd (fetch (Some budget) request)) \<le> nat budget"
proof (cases "\<exists>k. int k < budget \<and> \<not> isl (request k)")
  case True
  define k where "k = (LEAST k. int k < budget \<and> \<not> isl (request k))"
  from True have k: "int k < budget \<and> \<not> isl (request k)"
    unfolding k_def by (rule LeastI_ex)
  have least: "\<forall>i<k. isl (request i)"
  proof (intro allI impI)
    fix i assume "i < k"
    then have "\<not> (int i < budget \<and> \<not> isl (request i))"
      unfolding k_def by (rule not_less_Least)
    moreover from \<open>i < k\<close> k have "int i < budget" by simp
    ultimately show "isl (request i)" by simp
  qed
  from k obtain r where "request k = Inr r" by (cases "request k") auto
  with k least have "fetch (Some budget) request = (Inr r, rounds 1 (Suc (Suc k)))"
    by (intro fetch_success) simp_all
  moreover from k have "Suc k \<le> nat budget" by linarith
  ultimately show ?thesis by simp
next
  case False
  then have "\<forall>i. int i < budget \<longrightarrow> isl (request i)" by blast
  then show ?thesis by (simp add: fetch_all_fail)
qed

text \<open>
  C1. With a retry budget \<open>budget\<close>: when the transport throws on its first
  \<open>k < budget\<close> calls and answers the next one, \<open>fetch\<close> returns that response; when
  it throws on every call, \<open>fetch\<close> calls it exactly \<open>budget\<close> times and then throws
  the error of the last call. In no case is the transport called more than \<open>budget\<close>
  times.
\<close>

theorem fetch_retry_budget:
  "(int k < budget \<and> (\<forall>i<k. isl (request i)) \<and> request k = Inr r
      \<longrightarrow> fst (fetch (Some budget) request) = Inr r)
   \<and> ((\<forall>i. int i < budget \<longrightarrow> isl (request i))
      \<longrightarrow> calls (snd (fetch (Some budget) request)) = nat budget
        \<and> (0 < budget \<longrightarrow>
             (\<exists>e. request (nat budget - 1) = Inl e
                \<and> fst (fetch (Some budget) request) = Inl (Some e))))
   \<and> calls (snd (fetch (Some budget) request)) \<le> nat budget"
proof (intro conjI impI)
  assume "int k < budget \<and> (\<forall>i<k. isl (request i)) \<and> request k = Inr r"
  then have "fetch (Some budget) request = (Inr r, rounds 1 (Suc (Suc k)))"
    by (intro fetch_success) simp_all
  then show "fst (fetch (Some budget) request) = Inr r" by simp
next
  assume fail: "\<forall>i. int i < budget \<longrightarrow> isl (request i)"
  then show "calls (snd (fetch (Some budget) request)) = nat budget"
    by (simp add: fetch_all_fail)
  assume pos: "0 < budget"
  with fail have "isl (request (nat budget - 1))" by simp
  then obtain e where e: "request (nat budget - 1) = Inl e"
    by (cases "request (nat budget - 1)") auto
  with fail pos have "fst (fetch (Some budget) request) = Inl (Some e)"
    by (simp add: fetch_all_fail)
  with e show "\<exists>e. request (nat budget - 1) = Inl e
                \<and> fst (fetch (Some budget) request) = Inl (Some e)"
    by blast
next
  show "calls (snd (fetch (Some budget) request)) \<le> nat budget"
    by (rule fetch_calls_bounded)
qed

theorem fetch_retry_budget_witness:
  "fst (fetch (Some 3) (\<lambda>i. if i < 2 then Inl (''reset'', i) else Inr ''page'')) = Inr ''page''
   \<and> calls (snd (fetch (Some 3) (\<lambda>i. Inl (''reset'', i) :: (string \<times> nat) + string))) = 3
   \<and> fst (fetch (Some 3) (\<lambda>i. Inl (''reset'', i) :: (string \<times> nat) + string))
       = Inl (Some (''reset'', 2))"
  using fetch_retry_budget [of 2 3 "\<lambda>i. if i < 2 then Inl (''reset'', i) else Inr ''page''" "''page''"]
    fetch_retry_budget [of 0 3 "\<lambda>i. Inl (''reset'', i) :: (string \<times> nat) + string" "''page''"]
  by simp

text \<open>
  C5. When the first call of the transport answers, \<open>fetch\<close> still sleeps 2000 ms
  before it returns the response: the sleep follows every attempt, the successful one
  included, because \<^verbatim>\<open>count\<close> is already positive when the guard reads it. With
  a budget of one attempt it likewise sleeps after the only attempt, before it throws.
\<close>

theorem fetch_sleeps_after_response:
  "fetch (Some 5) (\<lambda>i. Inr r) = (Inr r, [Request, Sleep 2000])
   \<and> fetch (Some 1) (\<lambda>i. Inl x) = (Inl (Some x), [Request, Sleep 2000])"
  by (simp add: fetch_def fetch_loop.simps attempt_def backoff_def calls_def)

subsection \<open>Resolving the endpoints\<close>

lemma resolve_urls_rejected:
  "new_URL e s = None
   \<Longrightarrow> resolve_urls e s = Inl (Error ''gatsby-source-directus: \"url\" should be a valid URL'')"
  by (simp add: resolve_urls_def error_def)

lemma resolve_urls_parsed:
  assumes "new_URL e s = Some u"
    and "\<forall>v w x. set_pathname e v (set_pathname e w x) = set_pathname e v x"
  shows "resolve_urls e s =
     (let base = (if endsWith (pathname e u) (CHR ''/'')
                  then butlast (pathname e u) else pathname e u)
      in Inr (toString e (set_pathname e base u),
              toString e (set_pathname e (base @ ''/graphql'') u),
              toString e (set_pathname e (base @ ''/graphql/system'') u)))"
  using assms by (simp add: resolve_urls_def Let_def)

lemma resolve_urls_same_parse:
  "new_URL e s' = new_URL e s \<Longrightarrow> resolve_urls e s' = resolve_urls e s"
  by (simp add: resolve_urls_def)

lemma resolve_urls_trailing_slash:
  assumes u: "new_URL e s = Some u" and u': "new_URL e (s @ ''/'') = Some u'"
    and no_slash: "\<not> endsWith (pathname e u) (CHR ''/'')"
    and path: "pathname e u' = pathname e u @ ''/''"
    and rest: "\<forall>v. set_pathname e v u' = set_pathname e v u"
  shows "resolve_urls e (s @ ''/'') = resolve_urls e s"
proof -
  have base': "(if endsWith (pathname e u') (CHR ''/'')
                then butlast (pathname e u') else pathname e u') = pathname e u"
    by (simp add: path endsWith_def)
  have base: "(if endsWith (pathname e u) (CHR ''/'')
               then butlast (pathname e u) else pathname e u) = pathname e u"
    using no_slash by simp
  show ?thesis
    unfolding resolve_urls_def u u' option.case base base' Let_def
    by (simp add: rest)
qed

lemma exchange_urls:
  "url (snd (exchange c outcome this)) = url this
   \<and> urlGraphql (snd (exchange c outcome this)) = urlGraphql this
   \<and> urlGraphqlSystem (snd (exchange c outcome this)) = urlGraphqlSystem this"
  by (simp add: exchange_def Let_def split: sum.splits)

lemma authenticate_urls:
  "url (snd (authenticate e a this)) = url this
   \<and> urlGraphql (snd (authenticate e a this)) = urlGraphql this
   \<and> urlGraphqlSystem (snd (authenticate e a this)) = urlGraphqlSystem this"
  unfolding authenticate_def Let_def split_beta
  by (simp add: exchange_urls split: sum.splits)

lemma setOptions_urls:
  assumes "directus this = None" and "fst (setOptions e opts this) = Inr a"
  shows "resolve_urls e (string_of (opt_url opts))
         = Inr (url (snd (setOptions e opts this)),
                urlGraphql (snd (setOptions e opts this)),
                urlGraphqlSystem (snd (setOptions e opts this)))"
proof (cases "resolve_urls e (string_of (opt_url opts))")
  case (Inl err)
  with assms show ?thesis
    by (auto simp: setOptions_def Let_def split: if_splits)
next
  case (Inr t)
  obtain u ug us where t: "t = (u, ug, us)" by (cases t)
  let ?p = "this\<lparr>url := u, urlGraphql := ug, urlGraphqlSystem := us\<rparr>"
  obtain r p2 where au: "authenticate e (opt_auth opts) ?p = (r, p2)"
    by (cases "authenticate e (opt_auth opts) ?p")
  from authenticate_urls [of e "opt_auth opts" ?p] au
  have p2: "url p2 = u \<and> urlGraphql p2 = ug \<and> urlGraphqlSystem p2 = us"
    by simp
  from assms Inr t au p2 show ?thesis
    by (auto simp: setOptions_def Let_def
        split: if_splits sum.splits option.splits)
qed

text \<open>
  C4 (as amended). Resolution is a function of the root URL string and of the host's
  URL class alone: an input that the class rejects fails with the configuration error;
  two strings that it parses alike resolve alike; nothing else in the environment
  matters; and the triple that \<^verbatim>\<open>setOptions\<close> stores is the one resolved from the
  \<^verbatim>\<open>url\<close> option, whatever the instance held before and whatever the other options
  are. For an input that parses, the three results
  are the parsed URL with its pathname set to the base path, to the base path followed
  by \<^verbatim>\<open>/graphql\<close> and to the base path followed by \<^verbatim>\<open>/graphql/system\<close>, the base
  path being the parsed pathname without one trailing slash. A slash appended to the
  root changes none of the three whenever the class reads it as one more slash at the
  end of a pathname that did not end in one and as nothing else.
\<close>

theorem resolve_urls_endpoints:
  "(new_URL e s = None
      \<longrightarrow> resolve_urls e s
          = Inl (Error ''gatsby-source-directus: \"url\" should be a valid URL''))
   \<and> (new_URL e s' = new_URL e s \<longrightarrow> resolve_urls e s' = resolve_urls e s)
   \<and> (new_URL e' = new_URL e \<and> pathname e' = pathname e
        \<and> set_pathname e' = set_pathname e \<and> toString e' = toString e
      \<longrightarrow> resolve_urls e' s = resolve_urls e s)
   \<and> (new_URL e s = Some u
        \<and> (\<forall>v w x. set_pathname e v (set_pathname e w x) = set_pathname e v x)
      \<longrightarrow> resolve_urls e s =
          (let base = (if endsWith (pathname e u) (CHR ''/'')
                       then butlast (pathname e u) else pathname e u)
           in Inr (toString e (set_pathname e base u),
                   toString e (set_pathname e (base @ ''/graphql'') u),
                   toString e (set_pathname e (base @ ''/graphql/system'') u))))
   \<and> (new_URL e s = Some u \<and> new_URL e (s @ ''/'') = Some u'
        \<and> \<not> endsWith (pathname e u) (CHR ''/'')
        \<and> pathname e u' = pathname e u @ ''/''
        \<and> (\<forall>v. set_pathname e v u' = set_pathname e v u)
      \<longrightarrow> resolve_urls e (s @ ''/'') = resolve_urls e s)
   \<and> (directus this = None \<and> fst (setOptions e opts this) = Inr a
      \<longrightarrow> resolve_urls e (string_of (opt_url opts))
          = Inr (url (snd (setOptions e opts this)),
                 urlGraphql (snd (setOptions e opts this)),
                 urlGraphqlSystem (snd (setOptions e opts this))))"
proof (intro conjI impI)
  assume "new_URL e s = None"
  then show "resolve_urls e s
      = Inl (Error ''gatsby-source-directus: \"url\" should be a valid URL'')"
    by (rule resolve_urls_rejected)
next
  assume "new_URL e s' = new_URL e s"
  then show "resolve_urls e s' = resolve_urls e s"
    by (rule resolve_urls_same_parse)
next
  assume "new_URL e' = new_URL e \<and> pathname e' = pathname e
        \<and> set_pathname e' = set_pathname e \<and> toString e' = toString e"
  then show "resolve_urls e' s = resolve_urls e s"
    unfolding resolve_urls_def by (elim conjE) (simp only:)
next
  assume "new_URL e s = Some u
        \<and> (\<forall>v w x. set_pathname e v (set_pathname e w x) = set_pathname e v x)"
  then show "resolve_urls e s =
          (let base = (if endsWith (pathname e u) (CHR ''/'')
                       then butlast (pathname e u) else pathname e u)
           in Inr (toString e (set_pathname e base u),
                   toString e (set_pathname e (base @ ''/graphql'') u),
                   toString e (set_pathname e (base @ ''/graphql/system'') u)))"
    by (intro resolve_urls_parsed) simp_all
next
  assume "new_URL e s = Some u \<and> new_URL e (s @ ''/'') = Some u'
        \<and> \<not> endsWith (pathname e u) (CHR ''/'')
        \<and> pathname e u' = pathname e u @ ''/''
        \<and> (\<forall>v. set_pathname e v u' = set_pathname e v u)"
  then show "resolve_urls e (s @ ''/'') = resolve_urls e s"
    by (intro resolve_urls_trailing_slash [of e s u u']) simp_all
next
  assume "directus this = None \<and> fst (setOptions e opts this) = Inr a"
  then show "resolve_urls e (string_of (opt_url opts))
          = Inr (url (snd (setOptions e opts this)),
                 urlGraphql (snd (setOptions e opts this)),
                 urlGraphqlSystem (snd (setOptions e opts this)))"
    by (intro setOptions_urls [of this e opts a]) simp_all
qed

lemmas example_defs = example_env_def example_options_def other_options_def empty_host_def
  example_store_def example_file_def new_Plugin_def

lemmas plain_URL_defs = plain_new_URL_def plain_scheme_def authority_char_def path_char_def
  plain_set_pathname_def plain_toString_def endsWith_def

lemmas setOptions_defs = setOptions_def isEmpty_def auth_field_def resolve_urls_def
  plain_URL_defs authenticate_def exchange_def get_refreshInterval_def string_of_def
  error_def

lemma example_session:
  "setOptions (example_env st) example_options new_Plugin
   = (Inr (Some (AuthResult ''abc'')), example_session_plugin)"
  by (simp add: setOptions_defs example_defs example_session_plugin_def)

lemma example_parse:
  "new_URL (example_env st) ''example.com/cms'' = None"
  "new_URL (example_env st) ''http://example.com''
   = Some \<lparr>plain_protocol = ''http:'', plain_host = ''example.com'', plain_pathname = ''/'',
           plain_search = [], plain_hash = []\<rparr>"
  "new_URL (example_env st) ''http://example.com/''
   = Some \<lparr>plain_protocol = ''http:'', plain_host = ''example.com'', plain_pathname = ''/'',
           plain_search = [], plain_hash = []\<rparr>"
  "new_URL (example_env st) ''http://example.com/cms''
   = Some \<lparr>plain_protocol = ''http:'', plain_host = ''example.com'',
           plain_pathname = ''/cms'', plain_search = [], plain_hash = []\<rparr>"
  "new_URL (example_env st) ''http://example.com/cms/''
   = Some \<lparr>plain_protocol = ''http:'', plain_host = ''example.com'',
           plain_pathname = ''/cms/'', plain_search = [], plain_hash = []\<rparr>"
  by (simp_all add: example_env_def plain_URL_defs)

lemma example_url_class:
  "pathname (example_env st) = plain_pathname"
  "set_pathname (example_env st) = plain_set_pathname"
  "toString (example_env st) = plain_toString"
  by (simp_all add: example_env_def)

theorem resolve_urls_endpoints_witness:
  "resolve_urls (example_env example_store) ''example.com/cms''
     = Inl (Error ''gatsby-source-directus: \"url\" should be a valid URL'')
   \<and> resolve_urls (example_env example_store) ''http://example.com/''
     = resolve_urls (example_env example_store) ''http://example.com''
   \<and> resolve_urls (example_env []) ''http://example.com/cms''
     = resolve_urls (example_env example_store) ''http://example.com/cms''
   \<and> resolve_urls (example_env example_store) ''http://example.com/cms''
     = Inr (''http://example.com/cms'', ''http://example.com/cms/graphql'',
            ''http://example.com/cms/graphql/system'')
   \<and> resolve_urls (example_env example_store) (''http://example.com/cms'' @ ''/'')
     = resolve_urls (example_env example_store) ''http://example.com/cms''
   \<and> resolve_urls (example_env example_store) (string_of (opt_url example_options))
     = Inr (url example_session_plugin, urlGraphql example_session_plugin,
            urlGraphqlSystem example_session_plugin)"
proof -
  let ?e = "example_env example_store"
  let ?u = "\<lparr>plain_protocol = ''http:'', plain_host = ''example.com'',
             plain_pathname = ''/cms'', plain_search = [], plain_hash = []\<rparr>"
  let ?u' = "\<lparr>plain_protocol = ''http:'', plain_host = ''example.com'',
              plain_pathname = ''/cms/'', plain_search = [], plain_hash = []\<rparr>"
  have law: "\<forall>v w x. set_pathname ?e v (set_pathname ?e w x) = set_pathname ?e v x"
    by (simp add: example_url_class plain_set_pathname_def)
  have rest: "\<forall>v. set_pathname ?e v ?u' = set_pathname ?e v ?u"
    by (simp add: example_url_class plain_set_pathname_def)
  have path: "\<not> endsWith (pathname ?e ?u) (CHR ''/'')
      \<and> pathname ?e ?u' = pathname ?e ?u @ ''/''"
    by (simp add: example_url_class endsWith_def)
  have same: "new_URL ?e ''http://example.com/'' = new_URL ?e ''http://example.com''"
    by (simp add: example_parse)
  have sess: "directus new_Plugin = None
      \<and> fst (setOptions ?e example_options new_Plugin) = Inr (Some (AuthResult ''abc''))
      \<and> snd (setOptions ?e example_options new_Plugin) = example_session_plugin"
    by (simp add: example_session) (simp add: new_Plugin_def)
  note t1 = resolve_urls_endpoints [where e = ?e and s = "''example.com/cms''"
      and s' = "''example.com/cms''" and u = ?u and u' = ?u' and this = new_Plugin
      and opts = example_options and a = "Some (AuthResult ''abc'')"
      and e' = "example_env []"]
  note t2 = resolve_urls_endpoints [where e = ?e and s = "''http://example.com''"
      and s' = "''http://example.com/''" and u = ?u and u' = ?u' and this = new_Plugin
      and opts = example_options and a = "Some (AuthResult ''abc'')"
      and e' = "example_env []"]
  note t3 = resolve_urls_endpoints [where e = ?e and s = "''http://example.com/cms''"
      and s' = "''http://example.com/cms''" and u = ?u and u' = ?u' and this = new_Plugin
      and opts = example_options and a = "Some (AuthResult ''abc'')"
      and e' = "example_env []"]
  from t1 have w1: "resolve_urls ?e ''example.com/cms''
      = Inl (Error ''gatsby-source-directus: \"url\" should be a valid URL'')"
    by (simp add: example_parse)
  from t2 same have w2: "resolve_urls ?e ''http://example.com/''
      = resolve_urls ?e ''http://example.com''"
    by blast
  from t3 law have "resolve_urls ?e ''http://example.com/cms'' =
          (let base = (if endsWith (pathname ?e ?u) (CHR ''/'')
                       then butlast (pathname ?e ?u) else pathname ?e ?u)
           in Inr (toString ?e (set_pathname ?e base ?u),
                   toString ?e (set_pathname ?e (base @ ''/graphql'') ?u),
                   toString ?e (set_pathname ?e (base @ ''/graphql/system'') ?u)))"
    by (simp add: example_parse)
  then have w3: "resolve_urls ?e ''http://example.com/cms''
      = Inr (''http://example.com/cms'', ''http://example.com/cms/graphql'',
             ''http://example.com/cms/graphql/system'')"
    by (simp add: example_url_class plain_set_pathname_def plain_toString_def endsWith_def)
  have cls: "new_URL (example_env []) = new_URL ?e
      \<and> pathname (example_env []) = pathname ?e
      \<and> set_pathname (example_env []) = set_pathname ?e
      \<and> toString (example_env []) = toString ?e"
    by (simp add: example_env_def)
  from t3 cls have w6: "resolve_urls (example_env []) ''http://example.com/cms''
      = resolve_urls ?e ''http://example.com/cms''"
    by blast
  have parse': "new_URL ?e (''http://example.com/cms'' @ ''/'') = Some ?u'"
    by (simp add: example_parse)
  from t3 parse' path rest
  have w4: "resolve_urls ?e (''http://example.com/cms'' @ ''/'')
      = resolve_urls ?e ''http://example.com/cms''"
    by (simp add: example_parse)
  from t3 sess have w5: "resolve_urls ?e (string_of (opt_url example_options))
      = Inr (url example_session_plugin, urlGraphql example_session_plugin,
             urlGraphqlSystem example_session_plugin)"
    by simp
  from w1 w2 w3 w4 w5 w6 show ?thesis by blast
qed

text \<open>
  The claim as stated fails twice. A root without a path keeps its trailing slash; and a
  slash appended to a root that already ends in one changes both query endpoints, since
  only one slash is taken off.
\<close>

theorem resolve_urls_trailing_slash_counterexample:
  "resolve_urls (example_env example_store) ''http://example.com/''
     = Inr (''http://example.com/'', ''http://example.com/graphql'',
            ''http://example.com/graphql/system'')
   \<and> resolve_urls (example_env example_store) ''http://example.com/cms/''
     = Inr (''http://example.com/cms'', ''http://example.com/cms/graphql'',
            ''http://example.com/cms/graphql/system'')
   \<and> resolve_urls (example_env example_store) (''http://example.com/cms/'' @ ''/'')
     = Inr (''http://example.com/cms/'', ''http://example.com/cms//graphql'',
            ''http://example.com/cms//graphql/system'')"
  by (simp add: resolve_urls_def example_env_def plain_URL_defs)

subsection \<open>Establishing the session\<close>

lemma directus_exchange:
  "directus (snd (exchange c outcome this))
   = map_option (\<lambda>cl. cl\<lparr>exchanges := exchanges cl @ [c]\<rparr>) (directus this)"
  by (simp add: exchange_def Let_def split: sum.splits)

lemma authenticate_directus_snd: "directus (snd (authenticate e a this)) \<noteq> None"
  unfolding authenticate_def Let_def split_beta
  by (simp add: directus_exchange split: sum.splits)

lemma authenticate_directus:
  "authenticate e a this = (r, this') \<Longrightarrow> directus this' \<noteq> None"
  using authenticate_directus_snd [of e a this] by simp

lemma setOptions_established:
  assumes "setOptions e opts this = (Inr a, this')"
  shows "directus this' \<noteq> None \<and> authPromise this' = a"
proof (cases "directus this = None")
  case False
  with assms show ?thesis
    by (auto simp: setOptions_def split: if_splits)
next
  case True
  with assms show ?thesis
    by (auto simp: setOptions_def Let_def
        split: if_splits sum.splits prod.splits option.splits
        dest: authenticate_directus)
qed

lemma setOptions_needs_url:
  "fst (setOptions e opts this) = Inr a \<Longrightarrow> \<not> isEmpty (opt_url opts)"
  by (auto simp: setOptions_def error_def split: if_splits)

text \<open>
  C6 (as amended). Once \<^verbatim>\<open>setOptions\<close> has returned a session, every later call
  whose options carry a non-empty \<^verbatim>\<open>url\<close> returns that same session and leaves the
  instance unchanged, whatever else the options say; a call with the same options is
  one such call. A different configuration is ignored, not rejected.
\<close>

theorem setOptions_write_once:
  "(fst (setOptions e opts this) = Inr a \<and> \<not> isEmpty (opt_url opts')
    \<longrightarrow> setOptions e' opts' (snd (setOptions e opts this))
        = (Inr a, snd (setOptions e opts this)))
   \<and> (fst (setOptions e opts this) = Inr a
    \<longrightarrow> setOptions e' opts (snd (setOptions e opts this))
        = (Inr a, snd (setOptions e opts this)))"
proof -
  have later: "setOptions e' x (snd (setOptions e opts this))
       = (Inr a, snd (setOptions e opts this))"
    if ok: "fst (setOptions e opts this) = Inr a" and u: "\<not> isEmpty (opt_url x)" for x
  proof -
    from ok have "setOptions e opts this = (Inr a, snd (setOptions e opts this))"
      by (metis prod.collapse)
    then have "directus (snd (setOptions e opts this)) \<noteq> None
        \<and> authPromise (snd (setOptions e opts this)) = a"
      by (rule setOptions_established)
    with u show ?thesis
      by (simp add: setOptions_def)
  qed
  show ?thesis
    using later setOptions_needs_url by blast
qed

theorem setOptions_write_once_witness:
  "fst (setOptions (example_env example_store) example_options new_Plugin)
     = Inr (Some (AuthResult ''abc''))
   \<and> \<not> isEmpty (opt_url example_options)
   \<and> setOptions (example_env example_store) example_options
       (snd (setOptions (example_env example_store) example_options new_Plugin))
     = (Inr (Some (AuthResult ''abc'')),
        snd (setOptions (example_env example_store) example_options new_Plugin))"
  using setOptions_write_once [of "example_env example_store" example_options new_Plugin
      "Some (AuthResult ''abc'')" example_options "example_env example_store"]
  by (simp add: example_session) (simp add: example_options_def isEmpty_def example_session_plugin_def)

text \<open>
  The claim as stated fails: with a session held for \<open>example_options\<close>, a call with
  \<open>other_options\<close> (another URL, credentials instead of a token) returns the held
  session instead of throwing.
\<close>

theorem setOptions_other_configuration_counterexample:
  "opt_url other_options \<noteq> opt_url example_options
   \<and> opt_auth other_options \<noteq> opt_auth example_options
   \<and> setOptions (example_env example_store) other_options
       (snd (setOptions (example_env example_store) example_options new_Plugin))
     = (Inr (Some (AuthResult ''abc'')),
        snd (setOptions (example_env example_store) example_options new_Plugin))"
  by (simp add: example_session)
     (simp add: setOptions_def other_options_def example_options_def isEmpty_def
        example_session_plugin_def)


subsection \<open>Headers\<close>

lemma authenticate_static_only:
  assumes "\<not> isEmpty (auth_field token a)"
    and "isEmpty (auth_field email a) \<or> isEmpty (auth_field password a)"
  shows "directus (snd (authenticate e a this))
         = Some \<lparr>base_url = url this,
                 exchanges = [Static (string_of (auth_field token a))]\<rparr>"
  using assms unfolding authenticate_def Let_def split_beta
  by (auto simp: directus_exchange split: sum.splits)

lemma setOptions_static_only:
  assumes "directus this = None"
    and "\<not> isEmpty (auth_field token (opt_auth opts))"
    and "isEmpty (auth_field email (opt_auth opts)) \<or> isEmpty (auth_field password (opt_auth opts))"
    and "directus (snd (setOptions e opts this)) = Some client"
  shows "exchanges client = [Static (string_of (auth_field token (opt_auth opts)))]"
proof -
  have a: "directus (snd (authenticate e (opt_auth opts) p))
         = Some \<lparr>base_url = url p,
                 exchanges = [Static (string_of (auth_field token (opt_auth opts)))]\<rparr>" for p
    using assms(2,3) by (rule authenticate_static_only)
  have b: "authenticate e (opt_auth opts) p = (r, p') \<Longrightarrow> directus p'
         = Some \<lparr>base_url = url p,
                 exchanges = [Static (string_of (auth_field token (opt_auth opts)))]\<rparr>" for p r p'
    using a [of p] by simp
  from assms(1,4) show ?thesis
    by (auto simp: setOptions_def Let_def
        split: if_splits sum.splits prod.splits option.splits dest!: b)
qed

text \<open>
  C7. With a session and a non-empty token read from the client at the time of the
  call, \<^verbatim>\<open>headers()\<close> returns the user's headers (a static object, or what the user's
  function returns at that call, or none when there is no such object) overridden by
  \<^verbatim>\<open>Authorization: Bearer <token>\<close> for that token. A configuration with a token and
  without a complete email and password pair makes exactly one exchange on the client,
  \<^verbatim>\<open>auth.static\<close>, and no login; \<open>headers\<close> itself makes no exchange at all: it
  returns no new state.
\<close>

theorem headers_bearer_token:
  "(directus this = Some client \<and> options this = Some opts
      \<and> auth_token e client t = Some tok \<and> tok \<noteq> []
    \<longrightarrow> (opt_headers opts = HeadersObject m
           \<longrightarrow> headers e t this = Inr (m ++ [''Authorization'' \<mapsto> ''Bearer '' @ tok]))
       \<and> (opt_headers opts = HeadersFunction f \<and> f t = Inr (Some m)
           \<longrightarrow> headers e t this = Inr (m ++ [''Authorization'' \<mapsto> ''Bearer '' @ tok]))
       \<and> (opt_headers opts = HeadersFunction f \<and> f t = Inr None
           \<longrightarrow> headers e t this = Inr [''Authorization'' \<mapsto> ''Bearer '' @ tok])
       \<and> (opt_headers opts = HeadersUndefined
           \<longrightarrow> headers e t this = Inr [''Authorization'' \<mapsto> ''Bearer '' @ tok])
       \<and> (opt_headers opts = HeadersNull
           \<longrightarrow> headers e t this = Inr [''Authorization'' \<mapsto> ''Bearer '' @ tok])
       \<and> (opt_headers opts = HeadersOther
           \<longrightarrow> headers e t this = Inr [''Authorization'' \<mapsto> ''Bearer '' @ tok]))
   \<and> (directus this = None \<and> opt_auth opts = Some a \<and> token a = Some tok \<and> tok \<noteq> []
      \<and> (isEmpty (email a) \<or> isEmpty (password a))
      \<and> directus (snd (setOptions e opts this)) = Some client
    \<longrightarrow> exchanges client = [Static tok])"
proof (intro conjI impI)
  assume s: "directus this = None \<and> opt_auth opts = Some a \<and> token a = Some tok \<and> tok \<noteq> []
      \<and> (isEmpty (email a) \<or> isEmpty (password a))
      \<and> directus (snd (setOptions e opts this)) = Some client"
  then have "exchanges client = [Static (string_of (auth_field token (opt_auth opts)))]"
    by (intro setOptions_static_only [of this opts e client])
       (auto simp: auth_field_def isEmpty_def)
  with s show "exchanges client = [Static tok]"
    by (simp add: auth_field_def string_of_def)
qed (auto simp: headers_def user_headers_def)

theorem headers_bearer_token_witness:
  "headers
     ((example_env example_store)
        \<lparr>auth_token := (\<lambda>cl t. if t < 5 then Some ''abc'' else Some ''rotated'')\<rparr>)
     7 (snd (setOptions (example_env example_store) example_options new_Plugin))
   = Inr ([''X-Build'' \<mapsto> ''1''] ++ [''Authorization'' \<mapsto> ''Bearer rotated''])
   \<and> headers (example_env example_store) 7
       ((snd (setOptions (example_env example_store) example_options new_Plugin))
          \<lparr>options := Some (example_options
              \<lparr>opt_headers := HeadersFunction (\<lambda>t. Inr (Some [''X-Time'' \<mapsto> ''7'']))\<rparr>)\<rparr>)
   = Inr ([''X-Time'' \<mapsto> ''7''] ++ [''Authorization'' \<mapsto> ''Bearer abc''])
   \<and> directus (snd (setOptions (example_env example_store) example_options new_Plugin))
   = Some \<lparr>base_url = ''http://example.com/cms'', exchanges = [Static ''abc'']\<rparr>"
  using headers_bearer_token
    [of "snd (setOptions (example_env example_store) example_options new_Plugin)"
      "\<lparr>base_url = ''http://example.com/cms'', exchanges = [Static ''abc'']\<rparr>"
      example_options
      "(example_env example_store)
         \<lparr>auth_token := (\<lambda>cl t. if t < 5 then Some ''abc'' else Some ''rotated'')\<rparr>"
      7 "''rotated''" "[''X-Build'' \<mapsto> ''1'']" undefined undefined]
    headers_bearer_token
    [of "(snd (setOptions (example_env example_store) example_options new_Plugin))
          \<lparr>options := Some (example_options
              \<lparr>opt_headers := HeadersFunction (\<lambda>t. Inr (Some [''X-Time'' \<mapsto> ''7'']))\<rparr>)\<rparr>"
      "\<lparr>base_url = ''http://example.com/cms'', exchanges = [Static ''abc'']\<rparr>"
      "example_options
         \<lparr>opt_headers := HeadersFunction (\<lambda>t. Inr (Some [''X-Time'' \<mapsto> ''7'']))\<rparr>"
      "example_env example_store"
      7 "''abc''" "[''X-Time'' \<mapsto> ''7'']" "\<lambda>t. Inr (Some [''X-Time'' \<mapsto> ''7''])" undefined]
    headers_bearer_token
    [of new_Plugin
      "\<lparr>base_url = ''http://example.com/cms'', exchanges = [Static ''abc'']\<rparr>"
      example_options "example_env example_store" 7 "''abc''" undefined undefined
      "\<lparr>token = Some ''abc'', email = None, password = None\<rparr>"]
  by (simp add: example_session)
     (simp add: example_options_def new_Plugin_def isEmpty_def example_env_def
        example_session_plugin_def)

subsection \<open>Error messages\<close>

lemma error_tagged: "\<exists>m. error x = Error m \<and> prefix ''gatsby-source-directus: '' m"
  by (simp add: error_def)

lemma resolve_urls_error:
  "resolve_urls e s = Inl err \<Longrightarrow> \<exists>m. err = Error m \<and> prefix ''gatsby-source-directus: '' m"
  using error_tagged by (auto simp: resolve_urls_def Let_def split: option.splits)

lemma get_refreshInterval_error:
  "get_refreshInterval e r = Inl err \<Longrightarrow> \<exists>s. r = Some (RefreshString s) \<and> ms e s = Inl err"
  by (auto simp: get_refreshInterval_def split: option.splits refresh_value.splits sum.splits)

text \<open>
  C9 (as amended). Every error that \<^verbatim>\<open>setOptions\<close> raises through the module's
  \<^verbatim>\<open>error\<close> helper, that is every configuration error and the authentication error,
  starts with \<^verbatim>\<open>gatsby-source-directus: \<close>. The only other error it can raise is one
  thrown by the \<^verbatim>\<open>ms\<close> parser, which passes through as it is.
\<close>

theorem setOptions_errors_tagged:
  "fst (setOptions e opts this) = Inl err
   \<longrightarrow> (\<exists>m. err = Error m \<and> prefix ''gatsby-source-directus: '' m)
     \<or> (\<exists>s. opt_dev_refresh opts = Some (RefreshString s) \<and> ms e s = Inl err)"
proof
  assume "fst (setOptions e opts this) = Inl err"
  then show "(\<exists>m. err = Error m \<and> prefix ''gatsby-source-directus: '' m)
     \<or> (\<exists>s. opt_dev_refresh opts = Some (RefreshString s) \<and> ms e s = Inl err)"
    unfolding setOptions_def Let_def
    using error_tagged
    by (auto split: if_splits sum.splits prod.splits option.splits
        dest: resolve_urls_error get_refreshInterval_error)
qed

theorem setOptions_errors_tagged_witness:
  "fst (setOptions (example_env example_store) (example_options\<lparr>opt_url := Some ''example.com''\<rparr>) new_Plugin)
     = Inl (Error ''gatsby-source-directus: \"url\" should be a valid URL'')
   \<and> prefix ''gatsby-source-directus: '' ''gatsby-source-directus: \"url\" should be a valid URL''"
  using setOptions_errors_tagged [of "example_env example_store"
      "example_options\<lparr>opt_url := Some ''example.com''\<rparr>" new_Plugin
      "Error ''gatsby-source-directus: \"url\" should be a valid URL''"]
  by (simp add: setOptions_defs example_defs)

text \<open>
  The claim as stated fails: the enumerator's error on a plugin without a session and
  the resolver's error on a cache miss are plain errors without the tag.
\<close>

theorem untagged_errors_counterexample:
  "iterateFiles_next (example_env example_store) new_Plugin iterateFiles_start
     = Inl (Error ''Directus is not instantiated'')
   \<and> \<not> prefix ''gatsby-source-directus'' ''Directus is not instantiated''
   \<and> imageFile_resolve empty_host ''a1'' = Inl (Error ''Cached image not found for id: a1'')
   \<and> \<not> prefix ''gatsby-source-directus'' ''Cached image not found for id: a1''"
  by (simp add: iterateFiles_next_def iterateFiles_start_def imageFile_resolve_def example_defs)

subsection \<open>The batches of the enumerator\<close>

lemma batches_short: "length xs < n \<Longrightarrow> batches n xs = [xs]"
  by (subst batches.simps) simp

lemma batches_full:
  "0 < n \<Longrightarrow> n \<le> length xs \<Longrightarrow> batches n xs = take n xs # batches n (drop n xs)"
  by (subst batches.simps) simp

lemma batches_not_Nil: "batches n xs \<noteq> []"
  by (subst batches.simps) simp

lemma concat_batches: "concat (batches n xs) = xs"
proof (induction n xs rule: batches.induct)
  case (1 n xs)
  show ?case
  proof (cases "n = 0 \<or> length xs < n")
    case True
    then show ?thesis by (subst batches.simps) simp
  next
    case False
    with "1.IH" show ?thesis by (subst batches.simps) simp
  qed
qed

lemma length_batches: "0 < n \<Longrightarrow> length (batches n xs) = length xs div n + 1"
proof (induction n xs rule: batches.induct)
  case (1 n xs)
  show ?case
  proof (cases "length xs < n")
    case True
    then show ?thesis by (simp add: batches_short)
  next
    case False
    then have le: "n \<le> length xs" by simp
    with "1.prems" "1.IH" have "length (batches n (drop n xs)) = (length xs - n) div n + 1"
      by simp
    moreover have "length xs div n = Suc ((length xs - n) div n)"
      using "1.prems" le by (rule le_div_geq)
    ultimately show ?thesis
      using "1.prems" le by (simp add: batches_full)
  qed
qed

lemma batches_full_pages:
  "0 < n \<Longrightarrow> i < length xs div n \<Longrightarrow> length (batches n xs ! i) = n"
proof (induction n xs arbitrary: i rule: batches.induct)
  case (1 n xs)
  from "1.prems" have le: "n \<le> length xs"
    by (metis div_less not_less not_less_zero)
  have d: "length xs div n = Suc ((length xs - n) div n)"
    using "1.prems"(1) le by (rule le_div_geq)
  show ?case
  proof (cases i)
    case 0
    with "1.prems" le show ?thesis by (simp add: batches_full)
  next
    case (Suc j)
    with "1.prems" d have "j < length (drop n xs) div n" by simp
    with "1.prems" le have "length (batches n (drop n xs) ! j) = n"
      by (intro "1.IH") simp_all
    with Suc "1.prems" le show ?thesis by (simp add: batches_full)
  qed
qed

lemma batches_last_page: "0 < n \<Longrightarrow> length (last (batches n xs)) = length xs mod n"
proof (induction n xs rule: batches.induct)
  case (1 n xs)
  show ?case
  proof (cases "length xs < n")
    case True
    then show ?thesis by (simp add: batches_short)
  next
    case False
    then have le: "n \<le> length xs" by simp
    with "1.prems" "1.IH" have "length (last (batches n (drop n xs))) = (length xs - n) mod n"
      by simp
    moreover have "length xs mod n = (length xs - n) mod n"
      using le by (rule le_mod_geq)
    ultimately show ?thesis
      using "1.prems" le by (simp add: batches_full batches_not_Nil)
  qed
qed

lemma listing_page:
  "0 < c \<Longrightarrow> listing store c (int k + 1) = take (nat c) (drop (k * nat c) store)"
  by (simp add: listing_def nat_mult_distrib)

lemma iterateFiles_done:
  "iterateFiles e this (it\<lparr>hasMore := False\<rparr>) = Some ([], None)"
  by (subst iterateFiles.simps) (simp add: iterateFiles_next_def)

lemma iterateFiles_pages:
  assumes d: "directus this = Some client" and c: "concurrency this = Some c" and pos: "0 < c"
    and srv: "\<forall>pg. files_readByQuery e client (Some c) pg = Inr (Some (listing store c pg))"
  shows "iterateFiles e this \<lparr>hasMore = True, page = int k + 1\<rparr>
         = Some (batches (nat c) (drop (k * nat c) store), None)"
proof (induction "length store - k * nat c" arbitrary: k rule: less_induct)
  case less
  let ?n = "nat c"
  let ?xs = "drop (k * ?n) store"
  let ?it = "\<lparr>hasMore = True, page = int k + 1\<rparr>"
  from pos have n: "0 < ?n" by simp
  have nxt: "iterateFiles_next e this ?it = Inr (Some (take ?n ?xs))"
    using d c srv pos by (simp add: iterateFiles_next_def listing_page)
  show ?case
  proof (cases "length ?xs < ?n")
    case True
    then have short: "take ?n ?xs = ?xs" by simp
    have "int (length ?xs) < c" using True pos by linarith
    then have "iterateFiles_resume this ?xs ?it = ?it\<lparr>hasMore := False\<rparr>"
      using c by (simp add: iterateFiles_resume_def)
    then have "iterateFiles e this (iterateFiles_resume this ?xs ?it) = Some ([], None)"
      by (simp only: iterateFiles_done)
    then have "iterateFiles e this ?it = Some ([?xs], None)"
      by (subst iterateFiles.simps) (simp add: nxt short)
    with True show ?thesis by (simp add: batches_short)
  next
    case False
    then have le: "?n \<le> length ?xs" by simp
    then have len: "length (take ?n ?xs) = ?n" by simp
    have "\<not> int (length (take ?n ?xs)) < c" using len pos by simp
    then have res: "iterateFiles_resume this (take ?n ?xs) ?it
        = \<lparr>hasMore = True, page = int (Suc k) + 1\<rparr>"
      using c by (simp add: iterateFiles_resume_def)
    have dd: "drop (Suc k * ?n) store = drop ?n ?xs"
      by (simp add: add.commute)
    have "length store - Suc k * ?n < length store - k * ?n"
      using le n by simp
    then have "iterateFiles e this \<lparr>hasMore = True, page = int (Suc k) + 1\<rparr>
        = Some (batches ?n (drop (Suc k * ?n) store), None)"
      by (rule less)
    then have "iterateFiles e this ?it = Some (take ?n ?xs # batches ?n (drop ?n ?xs), None)"
      by (subst iterateFiles.simps) (simp only: nxt res dd sum.case option.case bind.simps prod.case)
    with n le show ?thesis by (simp add: batches_full)
  qed
qed

text \<open>
  C2 (as amended). For a collection of \<open>M\<close> records served \<open>N \<ge> 1\<close> to a page, the
  enumerator ends and yields \<open>M div N + 1\<close> batches: \<open>M div N\<close> batches of \<open>N\<close> records
  and then one batch of \<open>M mod N\<close> records, which is empty when \<open>N\<close> divides \<open>M\<close>. The
  batches together are the collection. After a batch of fewer than \<open>N\<close> records the
  enumerator stops, after any other it goes on to the next page.
\<close>

theorem iterateFiles_batches:
  "(directus this = Some client \<and> concurrency this = Some (int N) \<and> 0 < N
      \<and> (\<forall>pg. files_readByQuery e client (Some (int N)) pg
                = Inr (Some (listing store (int N) pg)))
    \<longrightarrow> (\<exists>bs. iterateFiles e this iterateFiles_start = Some (bs, None)
            \<and> length bs = length store div N + 1
            \<and> (\<forall>i < length store div N. length (bs ! i) = N)
            \<and> length (last bs) = length store mod N
            \<and> length (last bs) < N
            \<and> concat bs = store))
   \<and> (concurrency this = Some (int N)
    \<longrightarrow> iterateFiles_resume this files it
        = (if length files < N then it\<lparr>hasMore := False\<rparr> else it\<lparr>page := page it + 1\<rparr>))"
proof (intro conjI impI)
  assume h: "directus this = Some client \<and> concurrency this = Some (int N) \<and> 0 < N
      \<and> (\<forall>pg. files_readByQuery e client (Some (int N)) pg
                = Inr (Some (listing store (int N) pg)))"
  then have "iterateFiles e this \<lparr>hasMore = True, page = int 0 + 1\<rparr>
         = Some (batches (nat (int N)) (drop (0 * nat (int N)) store), None)"
    by (intro iterateFiles_pages [of this client "int N" e store 0]) simp_all
  then have run: "iterateFiles e this iterateFiles_start = Some (batches N store, None)"
    by (simp add: iterateFiles_start_def)
  from h have N: "0 < N" by simp
  show "\<exists>bs. iterateFiles e this iterateFiles_start = Some (bs, None)
            \<and> length bs = length store div N + 1
            \<and> (\<forall>i < length store div N. length (bs ! i) = N)
            \<and> length (last bs) = length store mod N
            \<and> length (last bs) < N
            \<and> concat bs = store"
  proof (intro exI [of _ "batches N store"] conjI allI impI)
    show "iterateFiles e this iterateFiles_start = Some (batches N store, None)"
      by (rule run)
    show "length (batches N store) = length store div N + 1"
      using N by (rule length_batches)
    show "length (batches N store ! i) = N" if "i < length store div N" for i
      using N that by (rule batches_full_pages)
    show "length (last (batches N store)) = length store mod N"
      using N by (rule batches_last_page)
    then show "length (last (batches N store)) < N"
      using N by simp
    show "concat (batches N store) = store"
      by (rule concat_batches)
  qed
next
  assume "concurrency this = Some (int N)"
  then show "iterateFiles_resume this files it
        = (if length files < N then it\<lparr>hasMore := False\<rparr> else it\<lparr>page := page it + 1\<rparr>)"
    by (simp add: iterateFiles_resume_def)
qed

theorem iterateFiles_batches_witness:
  "\<exists>bs. iterateFiles (example_env example_store) example_session_plugin iterateFiles_start
          = Some (bs, None)
       \<and> length bs = 2 \<and> length (bs ! 0) = 2 \<and> length (last bs) = 1
       \<and> concat bs = example_store"
proof -
  have srv: "\<forall>pg. files_readByQuery (example_env example_store)
                \<lparr>base_url = ''http://example.com/cms'', exchanges = [Static ''abc'']\<rparr>
                (Some (int 2)) pg
              = Inr (Some (listing example_store (int 2) pg))"
    by (simp add: example_env_def)
  have len: "length example_store = 3"
    by (simp add: example_store_def)
  have hyp: "directus example_session_plugin
        = Some \<lparr>base_url = ''http://example.com/cms'', exchanges = [Static ''abc'']\<rparr>
      \<and> concurrency example_session_plugin = Some (int 2) \<and> 0 < (2::nat)
      \<and> (\<forall>pg. files_readByQuery (example_env example_store)
                \<lparr>base_url = ''http://example.com/cms'', exchanges = [Static ''abc'']\<rparr>
                (Some (int 2)) pg
              = Inr (Some (listing example_store (int 2) pg)))"
    using srv by (simp add: example_session_plugin_def)
  from iterateFiles_batches
    [of example_session_plugin
      "\<lparr>base_url = ''http://example.com/cms'', exchanges = [Static ''abc'']\<rparr>"
      2 "example_env example_store" example_store, THEN conjunct1, THEN mp, OF hyp]
  obtain bs where bs: "iterateFiles (example_env example_store) example_session_plugin
        iterateFiles_start = Some (bs, None)"
      "length bs = length example_store div 2 + 1"
      "\<forall>i < length example_store div 2. length (bs ! i) = 2"
      "length (last bs) = length example_store mod 2"
      "concat bs = example_store"
    by blast
  from bs(3) len have "length (bs ! 0) = 2" by simp
  with bs len show ?thesis by auto
qed

text \<open>
  The claim as stated fails when the page size divides the number of records: one record
  with a page size of one gives two batches, the second empty, where the claim has one.
\<close>

theorem iterateFiles_extra_batch_counterexample:
  "iterateFiles (example_env [example_file ''a1'' ''photo.jpg''])
     (example_session_plugin\<lparr>concurrency := Some 1\<rparr>) iterateFiles_start
     = Some ([[example_file ''a1'' ''photo.jpg''], []], None)
   \<and> length [[example_file ''a1'' ''photo.jpg''], []]
       \<noteq> nat \<lceil>real (length [example_file ''a1'' ''photo.jpg'']) / real 1\<rceil>"
  by (simp add: iterateFiles.simps iterateFiles_next_def iterateFiles_resume_def
      iterateFiles_start_def listing_def example_env_def example_session_plugin_def)

subsection \<open>Mirroring the files\<close>

lemma sync_file_hit:
  assumes "cache h (file_id f) = Some n" and "n \<in> nodes h"
  shows "sync_file e this a h f = (None, h\<lparr>touched := touched h @ [n]\<rparr>)"
  using assms by (simp add: sync_file_def)

lemma sync_file_miss:
  assumes "cache h (file_id f) = None \<or> (\<exists>m. cache h (file_id f) = Some m \<and> m \<notin> nodes h)"
    and "createRemoteFileNode e (remote_request this a f) = Inr n"
  shows "sync_file e this a h f
         = (None, h\<lparr>nodes := insert n (nodes h),
                     downloads := downloads h @ [(remote_request this a f, n)],
                     cache := (cache h)(file_id f \<mapsto> n)\<rparr>)"
  using assms by (auto simp: sync_file_def remote_request_def split_beta)

lemma sync_file_cases:
  assumes "sync_file e this a h f = (None, h')"
  shows "(\<exists>n. cache h (file_id f) = Some n \<and> n \<in> nodes h
            \<and> h' = h\<lparr>touched := touched h @ [n]\<rparr>)
       \<or> (\<exists>n. \<not> (\<exists>m. cache h (file_id f) = Some m \<and> m \<in> nodes h)
            \<and> h' = h\<lparr>nodes := insert n (nodes h),
                     downloads := downloads h @ [(remote_request this a f, n)],
                     cache := (cache h)(file_id f \<mapsto> n)\<rparr>)"
  using assms
  by (auto simp: sync_file_def remote_request_def split_beta Let_def
      split: option.splits if_splits sum.splits)

lemma sync_batch_append:
  "sync_batch e this a h (xs @ ys)
   = (case sync_batch e this a h xs of
        (r, h') \<Rightarrow>
          (case sync_batch e this a h' ys of
             (rs, h'') \<Rightarrow> (case r of Some err \<Rightarrow> (Some err, h'') | None \<Rightarrow> (rs, h''))))"
  by (induction xs arbitrary: h) (auto split: prod.splits option.splits)

lemma sync_batch_Cons_ok:
  assumes "sync_batch e this a h (f # fs) = (None, h')"
  obtains h1 where "sync_file e this a h f = (None, h1)"
    and "sync_batch e this a h1 fs = (None, h')"
  using assms by (auto split: prod.splits option.splits)

lemma cached_nodes_length:
  "\<forall>f\<in>set fs. c (file_id f) \<noteq> None \<Longrightarrow> length (cached_nodes c fs) = length fs"
  by (induction fs) auto

lemma sync_batch_all_hit:
  assumes "\<forall>f\<in>set fs. \<exists>n. cache h (file_id f) = Some n \<and> n \<in> nodes h"
  shows "sync_batch e this a h fs
         = (None, h\<lparr>touched := touched h @ cached_nodes (cache h) fs\<rparr>)"
  using assms
proof (induction fs arbitrary: h)
  case Nil
  show ?case by simp
next
  case (Cons f fs)
  then obtain n where n: "cache h (file_id f) = Some n" "n \<in> nodes h" by auto
  let ?h1 = "h\<lparr>touched := touched h @ [n]\<rparr>"
  have step: "sync_file e this a h f = (None, ?h1)"
    using n by (rule sync_file_hit)
  have "\<forall>g\<in>set fs. \<exists>m. cache ?h1 (file_id g) = Some m \<and> m \<in> nodes ?h1"
    using Cons.prems by simp
  then have "sync_batch e this a ?h1 fs
         = (None, ?h1\<lparr>touched := touched ?h1 @ cached_nodes (cache ?h1) fs\<rparr>)"
    by (rule Cons.IH)
  with step n show ?case by simp
qed

lemma sync_file_keeps_hits:
  assumes "sync_file e this a h f = (None, h')"
  shows "(\<forall>i n. cache h i = Some n \<and> n \<in> nodes h \<longrightarrow> (\<exists>m. cache h' i = Some m \<and> m \<in> nodes h'))
       \<and> (\<exists>m. cache h' (file_id f) = Some m \<and> m \<in> nodes h')"
  using sync_file_cases [OF assms] by auto

lemma sync_batch_all_cached:
  assumes "sync_batch e this a h fs = (None, h')"
  shows "(\<forall>i n. cache h i = Some n \<and> n \<in> nodes h \<longrightarrow> (\<exists>m. cache h' i = Some m \<and> m \<in> nodes h'))
       \<and> (\<forall>f\<in>set fs. \<exists>m. cache h' (file_id f) = Some m \<and> m \<in> nodes h')"
  using assms
proof (induction fs arbitrary: h)
  case Nil
  then show ?case by simp
next
  case (Cons f fs)
  from Cons.prems obtain h1 where 1: "sync_file e this a h f = (None, h1)"
    and 2: "sync_batch e this a h1 fs = (None, h')"
    by (rule sync_batch_Cons_ok)
  note k1 = sync_file_keeps_hits [OF 1]
  note k2 = Cons.IH [OF 2]
  show ?case
  proof (intro conjI allI impI ballI)
    fix i n assume "cache h i = Some n \<and> n \<in> nodes h"
    with k1 obtain m where "cache h1 i = Some m \<and> m \<in> nodes h1" by blast
    with k2 show "\<exists>m. cache h' i = Some m \<and> m \<in> nodes h'" by blast
  next
    fix g assume "g \<in> set (f # fs)"
    then consider "g = f" | "g \<in> set fs" by auto
    then show "\<exists>m. cache h' (file_id g) = Some m \<and> m \<in> nodes h'"
    proof cases
      case 1
      with k1 obtain m where "cache h1 (file_id g) = Some m \<and> m \<in> nodes h1" by blast
      with k2 show ?thesis by blast
    next
      case 2
      with k2 show ?thesis by blast
    qed
  qed
qed

lemma cached_nodes_cong:
  "\<forall>f\<in>set fs. c (file_id f) = c' (file_id f) \<Longrightarrow> cached_nodes c fs = cached_nodes c' fs"
  by (induction fs) (auto split: option.splits)

lemma sync_batch_all_miss:
  assumes "distinct (map file_id fs)"
    and "\<forall>f\<in>set fs. cache h (file_id f) = None"
    and "sync_batch e this a h fs = (None, h')"
  shows "\<exists>ds. downloads h' = downloads h @ ds \<and> length ds = length fs
            \<and> cached_nodes (cache h') fs = map snd ds
            \<and> (\<forall>i. i \<notin> file_id ` set fs \<longrightarrow> cache h' i = cache h i)"
  using assms
proof (induction fs arbitrary: h)
  case Nil
  then show ?case by simp
next
  case (Cons f fs)
  from Cons.prems(3) obtain h1 where 1: "sync_file e this a h f = (None, h1)"
    and 2: "sync_batch e this a h1 fs = (None, h')"
    by (rule sync_batch_Cons_ok)
  from Cons.prems(2) have miss: "cache h (file_id f) = None" by simp
  with sync_file_cases [OF 1] obtain n where
    h1: "h1 = h\<lparr>nodes := insert n (nodes h),
                 downloads := downloads h @ [(remote_request this a f, n)],
                 cache := (cache h)(file_id f \<mapsto> n)\<rparr>"
    by auto
  from Cons.prems(1) have notin: "file_id f \<notin> file_id ` set fs" and dist: "distinct (map file_id fs)"
    by auto
  have "\<forall>g\<in>set fs. cache h1 (file_id g) = None"
    using Cons.prems(2) notin by (auto simp: h1 image_iff)
  from Cons.IH [OF dist this 2] obtain ds where
    ds: "downloads h' = downloads h1 @ ds" "length ds = length fs"
      "cached_nodes (cache h') fs = map snd ds"
      "\<forall>i. i \<notin> file_id ` set fs \<longrightarrow> cache h' i = cache h1 i"
    by blast
  from ds(4) notin have "cache h' (file_id f) = Some n" by (simp add: h1)
  with ds show ?case
    by (intro exI [of _ "(remote_request this a f, n) # ds"]) (simp add: h1)
qed

lemma sync_files_done:
  "sync_files e this a (it\<lparr>hasMore := False\<rparr>) h = Some (None, h)"
  by (subst sync_files.simps) (simp add: iterateFiles_next_def)

lemma sync_files_pages:
  assumes d: "directus this = Some client" and c: "concurrency this = Some c" and pos: "0 < c"
    and srv: "\<forall>pg. files_readByQuery e client (Some c) pg = Inr (Some (listing store c pg))"
  shows "\<exists>res. sync_files e this a \<lparr>hasMore = True, page = int k + 1\<rparr> h = Some res
           \<and> (fst res = None \<or> fst (sync_batch e this a h (drop (k * nat c) store)) = None
              \<longrightarrow> res = sync_batch e this a h (drop (k * nat c) store))"
proof (induction "length store - k * nat c" arbitrary: k h rule: less_induct)
  case less
  let ?n = "nat c"
  let ?xs = "drop (k * ?n) store"
  let ?it = "\<lparr>hasMore = True, page = int k + 1\<rparr>"
  from pos have n: "0 < ?n" by simp
  have nxt: "iterateFiles_next e this ?it = Inr (Some (take ?n ?xs))"
    using d c srv pos by (simp add: iterateFiles_next_def listing_page)
  obtain r h1 where b: "sync_batch e this a h (take ?n ?xs) = (r, h1)"
    by (cases "sync_batch e this a h (take ?n ?xs)")
  obtain rs h2 where b2: "sync_batch e this a h1 (drop ?n ?xs) = (rs, h2)"
    by (cases "sync_batch e this a h1 (drop ?n ?xs)")
  have "sync_batch e this a h (take ?n ?xs @ drop ?n ?xs)
      = (case r of Some err \<Rightarrow> (Some err, h2) | None \<Rightarrow> (rs, h2))"
    by (simp only: sync_batch_append b b2 prod.case)
  then have whole: "sync_batch e this a h ?xs
      = (case r of Some err \<Rightarrow> (Some err, h2) | None \<Rightarrow> (rs, h2))"
    by (simp only: append_take_drop_id)
  show ?case
  proof (cases "take ?n ?xs = []")
    case True
    with n have "?xs = []" by (metis take_eq_Nil not_less_zero)
    moreover have "sync_files e this a ?it h = Some (None, h)"
      by (subst sync_files.simps) (simp add: nxt True)
    ultimately show ?thesis by simp
  next
    case ne: False
    show ?thesis
    proof (cases r)
      case (Some err)
      have "sync_files e this a ?it h = Some (Some err, h1)"
        using ne by (subst sync_files.simps) (simp add: nxt b Some)
      with whole Some show ?thesis by simp
    next
      case None
      have unfold: "sync_files e this a ?it h
          = sync_files e this a (iterateFiles_resume this (take ?n ?xs) ?it) h1"
        using ne by (subst sync_files.simps) (simp add: nxt b None)
      show ?thesis
      proof (cases "length ?xs < ?n")
        case True
        then have short: "take ?n ?xs = ?xs" by simp
        have "int (length ?xs) < c" using True pos by linarith
        then have "iterateFiles_resume this (take ?n ?xs) ?it = ?it\<lparr>hasMore := False\<rparr>"
          using c by (simp add: iterateFiles_resume_def short)
        then have "sync_files e this a ?it h = Some (None, h1)"
          unfolding unfold by (simp only: sync_files_done)
        with b None short show ?thesis by simp
      next
        case False
        then have le: "?n \<le> length ?xs" by simp
        then have len: "length (take ?n ?xs) = ?n" by simp
        have "\<not> int (length (take ?n ?xs)) < c" using len pos by simp
        then have res: "iterateFiles_resume this (take ?n ?xs) ?it
            = \<lparr>hasMore = True, page = int (Suc k) + 1\<rparr>"
          using c by (simp add: iterateFiles_resume_def)
        have dd: "drop (Suc k * ?n) store = drop ?n ?xs"
          by (simp add: add.commute)
        have "length store - Suc k * ?n < length store - k * ?n"
          using le n by simp
        then have "\<exists>res. sync_files e this a \<lparr>hasMore = True, page = int (Suc k) + 1\<rparr> h1
              = Some res
            \<and> (fst res = None
                \<or> fst (sync_batch e this a h1 (drop (Suc k * ?n) store)) = None
               \<longrightarrow> res = sync_batch e this a h1 (drop (Suc k * ?n) store))"
          by (rule less)
        then obtain y
          where r12: "sync_files e this a \<lparr>hasMore = True, page = int (Suc k) + 1\<rparr> h1
              = Some y
            \<and> (fst y = None
                \<or> fst (sync_batch e this a h1 (drop (Suc k * ?n) store)) = None
               \<longrightarrow> y = sync_batch e this a h1 (drop (Suc k * ?n) store))" ..
        from r12
        have r1: "sync_files e this a \<lparr>hasMore = True, page = int (Suc k) + 1\<rparr> h1
              = Some y"
          by (rule conjunct1)
        from r12
        have r2: "fst y = None
                \<or> fst (sync_batch e this a h1 (drop (Suc k * ?n) store)) = None
               \<longrightarrow> y = sync_batch e this a h1 (drop (Suc k * ?n) store)"
          by (rule conjunct2)
        have res1: "sync_files e this a ?it h = Some y"
          unfolding unfold res by (rule r1)
        from r2 have res2: "fst y = None
              \<or> fst (sync_batch e this a h1 (drop ?n ?xs)) = None
               \<longrightarrow> y = sync_batch e this a h1 (drop ?n ?xs)"
          unfolding dd .
        from whole None b2
        have eq: "sync_batch e this a h ?xs = sync_batch e this a h1 (drop ?n ?xs)"
          by simp
        show ?thesis
        proof (intro exI [of _ y] conjI impI)
          show "sync_files e this a ?it h = Some y" by (rule res1)
        next
          assume "fst y = None \<or> fst (sync_batch e this a h ?xs) = None"
          then have "fst y = None \<or> fst (sync_batch e this a h1 (drop ?n ?xs)) = None"
            by (simp only: eq)
          with res2 have "y = sync_batch e this a h1 (drop ?n ?xs)" by (rule mp)
          then show "y = sync_batch e this a h ?xs" by (simp only: eq)
        qed
      qed
    qed
  qed
qed

lemma sync_files_store:
  assumes "directus this = Some client" and "concurrency this = Some c" and "0 < c"
    and "\<forall>pg. files_readByQuery e client (Some c) pg = Inr (Some (listing store c pg))"
  shows "(sync_files e this a iterateFiles_start h = Some (None, h')
          \<longleftrightarrow> sync_batch e this a h store = (None, h'))"
proof -
  from sync_files_pages [OF assms, of a 0 h]
  obtain res where 1: "sync_files e this a iterateFiles_start h = Some res"
    and 2: "fst res = None \<or> fst (sync_batch e this a h store) = None
               \<longrightarrow> res = sync_batch e this a h store"
    by (auto simp: iterateFiles_start_def)
  show ?thesis
  proof
    assume "sync_files e this a iterateFiles_start h = Some (None, h')"
    with 1 2 show "sync_batch e this a h store = (None, h')" by auto
  next
    assume "sync_batch e this a h store = (None, h')"
    with 1 2 show "sync_files e this a iterateFiles_start h = Some (None, h')" by auto
  qed
qed

text \<open>
  C3. A record whose cache entry names a node that \<^verbatim>\<open>getNode\<close> finds has that node
  touched once, and nothing is downloaded or written to the cache. A record without a
  cache entry is downloaded, and the cache then maps its identifier to the identifier of
  the node created. Consequently, when one run over a collection of records with
  distinct identifiers has completed, a second run over the same collection completes,
  downloads nothing, leaves the cache as it is and touches one node for each record, in
  order; if the first run started without entries for these records, the nodes touched
  are exactly the nodes that the first run created, each once.
\<close>

theorem sync_cache:
  "(cache h (file_id f) = Some n \<and> n \<in> nodes h
      \<longrightarrow> sync_file e this a h f = (None, h\<lparr>touched := touched h @ [n]\<rparr>))
   \<and> (cache h (file_id f) = None
        \<and> createRemoteFileNode e (remote_request this a f) = Inr n
      \<longrightarrow> sync_file e this a h f
          = (None, h\<lparr>nodes := insert n (nodes h),
                      downloads := downloads h @ [(remote_request this a f, n)],
                      cache := (cache h)(file_id f \<mapsto> n)\<rparr>))
   \<and> (directus this = Some client \<and> concurrency this = Some c \<and> 0 < c
        \<and> (\<forall>pg. files_readByQuery e client (Some c) pg = Inr (Some (listing store c pg)))
        \<and> distinct (map file_id store)
        \<and> sync_files e this a iterateFiles_start h0 = Some (None, h1)
      \<longrightarrow> sync_files e this a' iterateFiles_start h1
            = Some (None, h1\<lparr>touched := touched h1 @ cached_nodes (cache h1) store\<rparr>)
          \<and> length (cached_nodes (cache h1) store) = length store
          \<and> ((\<forall>g\<in>set store. cache h0 (file_id g) = None)
              \<longrightarrow> length (downloads h1) = length (downloads h0) + length store
                \<and> cached_nodes (cache h1) store
                    = map snd (drop (length (downloads h0)) (downloads h1))))"
proof (intro conjI impI)
  assume "cache h (file_id f) = Some n \<and> n \<in> nodes h"
  then show "sync_file e this a h f = (None, h\<lparr>touched := touched h @ [n]\<rparr>)"
    by (intro sync_file_hit) simp_all
next
  assume "cache h (file_id f) = None
        \<and> createRemoteFileNode e (remote_request this a f) = Inr n"
  then show "sync_file e this a h f
          = (None, h\<lparr>nodes := insert n (nodes h),
                      downloads := downloads h @ [(remote_request this a f, n)],
                      cache := (cache h)(file_id f \<mapsto> n)\<rparr>)"
    by (intro sync_file_miss) simp_all
next
  assume run: "directus this = Some client \<and> concurrency this = Some c \<and> 0 < c
        \<and> (\<forall>pg. files_readByQuery e client (Some c) pg = Inr (Some (listing store c pg)))
        \<and> distinct (map file_id store)
        \<and> sync_files e this a iterateFiles_start h0 = Some (None, h1)"
  then have loop: "sync_files e this b iterateFiles_start x = Some (None, y)
      \<longleftrightarrow> sync_batch e this b x store = (None, y)" for b x y
    by (intro sync_files_store [of this client c e store]) simp_all
  from run loop [of a h0 h1] have first: "sync_batch e this a h0 store = (None, h1)"
    by simp
  then have hits: "\<forall>g\<in>set store. \<exists>m. cache h1 (file_id g) = Some m \<and> m \<in> nodes h1"
    using sync_batch_all_cached by blast
  then have "sync_batch e this a' h1 store
      = (None, h1\<lparr>touched := touched h1 @ cached_nodes (cache h1) store\<rparr>)"
    by (rule sync_batch_all_hit)
  with loop [of a' h1 "h1\<lparr>touched := touched h1 @ cached_nodes (cache h1) store\<rparr>"]
  show "sync_files e this a' iterateFiles_start h1
      = Some (None, h1\<lparr>touched := touched h1 @ cached_nodes (cache h1) store\<rparr>)"
    by simp
  from hits show "length (cached_nodes (cache h1) store) = length store"
    by (intro cached_nodes_length) auto
  assume fresh: "\<forall>g\<in>set store. cache h0 (file_id g) = None"
  from run have "distinct (map file_id store)" by simp
  from sync_batch_all_miss [OF this fresh first]
  obtain ds where ds: "downloads h1 = downloads h0 @ ds" "length ds = length store"
      "cached_nodes (cache h1) store = map snd ds"
    by blast
  then show "length (downloads h1) = length (downloads h0) + length store"
    by simp
  from ds show "cached_nodes (cache h1) store
      = map snd (drop (length (downloads h0)) (downloads h1))"
    by simp
qed

lemma example_first_run:
  "sync_batch (example_env example_store) example_session_plugin (Some ''Bearer abc'')
     empty_host example_store = (None, example_mirrored)"
  by (simp add: sync_file_def remote_request_def split_filename_def example_env_def
      example_store_def example_file_def example_session_plugin_def empty_host_def
      example_mirrored_def)

theorem sync_cache_witness:
  "sync_file (example_env example_store) example_session_plugin (Some ''Bearer abc'')
     example_mirrored (example_file ''a1'' ''photo.jpg'')
     = (None, example_mirrored\<lparr>touched := [''node-a1'']\<rparr>)
   \<and> sync_file (example_env example_store) example_session_plugin (Some ''Bearer abc'')
       empty_host (example_file ''b2'' ''README'')
     = (None, empty_host
          \<lparr>nodes := {''node-b2''},
           downloads :=
             [(remote_request example_session_plugin (Some ''Bearer abc'')
                 (example_file ''b2'' ''README''), ''node-b2'')],
           cache := [''b2'' \<mapsto> ''node-b2'']\<rparr>)
   \<and> sync_files (example_env example_store) example_session_plugin (Some ''Bearer abc'')
       iterateFiles_start empty_host
     = Some (None, example_mirrored)
   \<and> sync_files (example_env example_store) example_session_plugin (Some ''Bearer abc'')
       iterateFiles_start example_mirrored
     = Some (None, example_mirrored\<lparr>touched := [''node-a1'', ''node-b2'', ''node-c3'']\<rparr>)
   \<and> map snd (downloads example_mirrored) = [''node-a1'', ''node-b2'', ''node-c3'']"
proof -
  let ?e = "example_env example_store"
  let ?p = "example_session_plugin"
  let ?a = "Some ''Bearer abc''"
  let ?cl = "\<lparr>base_url = ''http://example.com/cms'', exchanges = [Static ''abc'']\<rparr>"
  have srv: "directus ?p = Some ?cl \<and> concurrency ?p = Some 2 \<and> (0::int) < 2
      \<and> (\<forall>pg. files_readByQuery ?e ?cl (Some 2) pg = Inr (Some (listing example_store 2 pg)))"
    by (simp add: example_env_def example_session_plugin_def)
  then have first: "sync_files ?e ?p ?a iterateFiles_start empty_host
      = Some (None, example_mirrored)"
    using sync_files_store [of ?p ?cl 2 ?e example_store ?a empty_host example_mirrored]
    by (simp add: example_first_run)
  have dist: "distinct (map file_id example_store)"
    by (simp add: example_store_def example_file_def)
  have fresh: "\<forall>g\<in>set example_store. cache empty_host (file_id g) = None"
    by (simp add: empty_host_def)
  have hit: "cache example_mirrored (file_id (example_file ''a1'' ''photo.jpg'')) = Some ''node-a1''
      \<and> ''node-a1'' \<in> nodes example_mirrored"
    by (simp add: example_mirrored_def example_file_def)
  have miss: "cache empty_host (file_id (example_file ''b2'' ''README'')) = None
      \<and> createRemoteFileNode ?e (remote_request ?p ?a (example_file ''b2'' ''README''))
          = Inr ''node-b2''"
    by (simp add: empty_host_def example_env_def remote_request_def example_file_def)
  have cn: "cached_nodes (cache example_mirrored) example_store
      = [''node-a1'', ''node-b2'', ''node-c3'']"
    by (simp add: example_mirrored_def example_store_def example_file_def)
  note thm1 = sync_cache [of example_mirrored "example_file ''a1'' ''photo.jpg''" "''node-a1''"
      ?e ?p ?a ?cl 2 example_store empty_host example_mirrored ?a]
  note thm2 = sync_cache [of empty_host "example_file ''b2'' ''README''" "''node-b2''"
      ?e ?p ?a ?cl 2 example_store empty_host example_mirrored ?a]
  from thm1 hit have w1: "sync_file ?e ?p ?a example_mirrored (example_file ''a1'' ''photo.jpg'')
      = (None, example_mirrored\<lparr>touched := touched example_mirrored @ [''node-a1'']\<rparr>)"
    by blast
  from thm2 miss have w2: "sync_file ?e ?p ?a empty_host (example_file ''b2'' ''README'')
      = (None, empty_host\<lparr>nodes := insert ''node-b2'' (nodes empty_host),
            downloads := downloads empty_host
              @ [(remote_request ?p ?a (example_file ''b2'' ''README''), ''node-b2'')],
            cache := (cache empty_host)(file_id (example_file ''b2'' ''README'') \<mapsto> ''node-b2'')\<rparr>)"
    by blast
  from thm1 srv dist first have w3: "sync_files ?e ?p ?a iterateFiles_start example_mirrored
      = Some (None, example_mirrored
          \<lparr>touched := touched example_mirrored @ cached_nodes (cache example_mirrored) example_store\<rparr>)"
    by blast
  have t0: "touched example_mirrored = []"
    by (simp add: example_mirrored_def)
  from thm1 srv dist first fresh
  have "cached_nodes (cache example_mirrored) example_store
      = map snd (drop (length (downloads empty_host)) (downloads example_mirrored))"
    by blast
  then have w4: "map snd (downloads example_mirrored) = [''node-a1'', ''node-b2'', ''node-c3'']"
    by (simp add: cn empty_host_def)
  from w1 have w1': "sync_file ?e ?p ?a example_mirrored (example_file ''a1'' ''photo.jpg'')
      = (None, example_mirrored\<lparr>touched := [''node-a1'']\<rparr>)"
    by (simp add: t0)
  from w2 have w2': "sync_file ?e ?p ?a empty_host (example_file ''b2'' ''README'')
      = (None, empty_host\<lparr>nodes := {''node-b2''},
            downloads := [(remote_request ?p ?a (example_file ''b2'' ''README''), ''node-b2'')],
            cache := [''b2'' \<mapsto> ''node-b2'']\<rparr>)"
    by (simp add: empty_host_def example_file_def)
  from w3 have w3': "sync_files ?e ?p ?a iterateFiles_start example_mirrored
      = Some (None, example_mirrored\<lparr>touched := [''node-a1'', ''node-b2'', ''node-c3'']\<rparr>)"
    by (simp add: t0 cn)
  from w1' w2' first w3' w4 show ?thesis by blast
qed

subsection \<open>The entry point\<close>

text \<open>
  C10. \<^verbatim>\<open>exports.sourceNodes\<close> reads the option bundle and the headers before it
  applies the options it was given. On a plugin instance whose options were never set
  the first of these reads throws a \<^verbatim>\<open>TypeError\<close>, and the instance is left as it
  was: no session is established from the configuration supplied.
\<close>

theorem sourceNodes_before_setOptions:
  "options this = None \<Longrightarrow>
   sourceNodes e t pluginOptions this h
     = Some (Some (TypeError ''Cannot convert undefined or null to object''), this, h)"
  by (simp add: sourceNodes_def getOptions_def)

theorem sourceNodes_before_setOptions_witness:
  "options new_Plugin = None
   \<and> sourceNodes (example_env example_store) 0 example_options new_Plugin empty_host
     = Some (Some (TypeError ''Cannot convert undefined or null to object''),
             new_Plugin, empty_host)
   \<and> directus new_Plugin = None"
  using sourceNodes_before_setOptions
    [of new_Plugin "example_env example_store" 0 example_options empty_host]
  by (simp add: new_Plugin_def)

end
